theory Spec2Isabelle
  imports Complex_Main
begin

section \<open>Data model of \<open>services/monicaService.js\<close>\<close>

text \<open>
  The service keeps two module-level objects, \<open>processingProgress\<close> and
  \<open>rateLimits\<close>, and reads the clock with \<open>Date.now()\<close>. The model passes
  them explicitly in a record \<open>world\<close>. Times are milliseconds (\<open>int\<close>); token
  counts and the estimated end time are JavaScript numbers obtained by division and are
  modelled as exact rationals (rounding of doubles is not modelled). JavaScript strings
  are lists of code units. An \<open>undefined\<close> or empty string is falsy in the source
  (\<open>!x\<close>, \<open>x || y\<close>); both are modelled as the empty string.
\<close>

datatype status = Idle | Processing | Completed | Error | Cancelled

record history_entry =
  h_file :: string
  h_model :: string
  h_duration :: int
  h_timestamp :: int
  h_success :: bool
  h_error :: "string option"

record progress =
  currentFile :: "string option"
  currentFileNumber :: int
  totalFiles :: int
  totalChunks :: nat
  processedChunks :: nat
  startTime :: "int option"
  estimatedEndTime :: "rat option"
  status :: status
  error :: "string option"
  lastUpdated :: int
  processingHistory :: "history_entry list"
  processedFiles :: "string set"
  cancelled :: bool

text \<open>An entry of \<open>modelData.models\<close> (\<open>models.json\<close>): the fields the service reads.\<close>

record model_info =
  key :: string
  tokenLimit :: nat
  rpm :: nat

text \<open>\<open>rateLimits[modelKey]\<close>: request timestamps and \<open>{timestamp, count}\<close> entries.\<close>

record rate_window =
  requests :: "int list"
  tokens :: "(int \<times> rat) list"

text \<open>
  Observable actions, kept in a log so that calls can be counted:
  the orchestrator invoking \<open>callMonicaApi\<close> (\<open>Completion\<close>), a caller invoking
  \<open>checkRateLimits\<close> (\<open>Admit\<close>), \<open>axios.post\<close> (\<open>Post\<close>), \<open>trackRequest\<close>
  (\<open>Record\<close>) and \<open>fs.writeFile\<close> (\<open>Write\<close>).
\<close>

datatype event =
    Completion string string string
  | Admit string
  | Post string string
  | Record string
  | Write string string

text \<open>
  Besides the two objects, the clock and the log of actions, the world keeps
  \<open>recorded\<close>: every key and time that \<open>trackRequest\<close> has stored, in order and
  never pruned. The service has no such list; it is there for the statements about the
  requests recorded within a minute.
\<close>

record world =
  processingProgress :: progress
  rateLimits :: "string \<Rightarrow> rate_window option"
  clock :: int
  events :: "event list"
  recorded :: "(string \<times> int) list"

text \<open>
  What the service reads from outside: \<open>models.json\<close>, the process environment and
  the file system. \<open>readFile\<close> gives the content or the message of the error thrown;
  \<open>writeFile\<close> gives the message of the error thrown, if any.
\<close>

record env =
  modelData :: "model_info list"
  MONICA_API_KEY :: string
  MONICA_API_ENDPOINT :: string
  DEFAULT_MODEL :: string
  readFile :: "string \<Rightarrow> string + string"
  writeFile :: "string \<Rightarrow> string \<Rightarrow> string option"

text \<open>
  One exchange with the remote service: how long it takes, whether the cancel route
  calls \<open>cancelProcessing\<close> while it is in flight, and what comes back:
  a 2xx response with its optional \<open>usage\<close> (prompt and completion tokens) and its
  optional \<open>choices[0].message.content\<close>; a response with another status, its
  \<open>data.error.message\<close> (empty when absent) and its \<open>retry-after\<close> header in
  seconds; or no response at all. The list of exchanges still to come is the script
  of a run; a run that needs more exchanges than the script holds has no result.
\<close>

datatype reply =
    Ok2xx "(nat \<times> nat) option" "string option"
  | HttpError nat string "nat option"
  | NoResponse

record exchange =
  latency :: nat
  cancel_during :: bool
  reply :: reply

definition log_event :: "event \<Rightarrow> world \<Rightarrow> world" where
  "log_event e w = w\<lparr>events := events w @ [e]\<rparr>"

section \<open>Helpers standing for JavaScript built-ins\<close>

text \<open>\<open>a || b\<close> on strings.\<close>

definition or_else :: "string \<Rightarrow> string \<Rightarrow> string" where
  "or_else a b = (if a = [] then b else a)"

text \<open>Decimal rendering of a non-negative integer in a template string.\<close>

function digits :: "nat \<Rightarrow> string" where
  "digits n = (if n < 10 then [char_of (48 + n)] else digits (n div 10) @ [char_of (48 + n mod 10)])"
  by pat_completeness auto
termination
  by (relation "measure (\<lambda>n. n)") auto

text \<open>\<open>String.prototype.includes\<close>.\<close>

fun includes_str :: "string \<Rightarrow> string \<Rightarrow> bool" where
  "includes_str [] pat = (pat = [])"
| "includes_str (c # cs) pat = (take (length pat) (c # cs) = pat \<or> includes_str cs pat)"

text \<open>\<open>Array.prototype.join\<close>.\<close>

fun join :: "string \<Rightarrow> string list \<Rightarrow> string" where
  "join sep [] = []"
| "join sep [x] = x"
| "join sep (x # y # ys) = x @ sep @ join sep (y # ys)"

text \<open>\<open>path.basename\<close> for POSIX paths: the last component, trailing separators dropped.\<close>

definition basename :: "string \<Rightarrow> string" where
  "basename p =
     rev (takeWhile (\<lambda>c. c \<noteq> CHR ''/'') (dropWhile (\<lambda>c. c = CHR ''/'') (rev p)))"

text \<open>\<open>xs.slice(-9)\<close>: the last nine elements.\<close>

definition slice_last9 :: "'a list \<Rightarrow> 'a list" where
  "slice_last9 xs = drop (length xs - 9) xs"

section \<open>Progress tracker\<close>

text \<open>\<open>updateProgress(update)\<close>: merge the update, then stamp \<open>lastUpdated\<close>.\<close>

definition updateProgress :: "(progress \<Rightarrow> progress) \<Rightarrow> world \<Rightarrow> world" where
  "updateProgress update w =
     w\<lparr>processingProgress := (update (processingProgress w))\<lparr>lastUpdated := clock w\<rparr>\<rparr>"

definition resetProgress :: "world \<Rightarrow> world" where
  "resetProgress w =
     w\<lparr>processingProgress :=
        \<lparr>currentFile = None, currentFileNumber = 0, totalFiles = 0, totalChunks = 0,
         processedChunks = 0, startTime = None, estimatedEndTime = None, status = Idle,
         error = None, lastUpdated = clock w, processingHistory = [],
         processedFiles = {}, cancelled = False\<rparr>\<rparr>"

definition setTotalFiles :: "int \<Rightarrow> world \<Rightarrow> world" where
  "setTotalFiles n w = updateProgress (\<lambda>p. p\<lparr>totalFiles := n\<rparr>) (resetProgress w)"

definition cancelProcessing :: "world \<Rightarrow> world" where
  "cancelProcessing w =
     (if status (processingProgress w) = Processing
      then updateProgress
             (\<lambda>p. p\<lparr>cancelled := True, status := Cancelled,
                     error := Some ''Processing cancelled by user''\<rparr>) w
      else w)"

definition trackFileProcessing :: "string \<Rightarrow> world \<Rightarrow> int \<times> world" where
  "trackFileProcessing filePath w =
     (let fileName = basename filePath;
          p = processingProgress w
      in if fileName \<notin> processedFiles p
         then let w1 = w\<lparr>processingProgress := p\<lparr>processedFiles := insert fileName (processedFiles p)\<rparr>\<rparr>;
                  newFileNumber = min (currentFileNumber p + 1) (totalFiles p)
              in (newFileNumber,
                  updateProgress
                    (\<lambda>q. q\<lparr>currentFileNumber := newFileNumber, currentFile := Some fileName\<rparr>) w1)
         else (currentFileNumber p, w))"

section \<open>Model registry\<close>

definition getModelInfo :: "model_info list \<Rightarrow> string \<Rightarrow> model_info option" where
  "getModelInfo models modelKey =
     (if modelKey = [] then None else find (\<lambda>m. key m = modelKey) models)"

definition DEFAULT_TOKEN_LIMIT :: nat where
  "DEFAULT_TOKEN_LIMIT = 100000"

definition getModelTokenLimit :: "model_info list \<Rightarrow> string \<Rightarrow> nat" where
  "getModelTokenLimit models modelKey =
     (case getModelInfo models modelKey of
        Some m \<Rightarrow> tokenLimit m
      | None \<Rightarrow> DEFAULT_TOKEN_LIMIT)"

section \<open>Rate limiter\<close>

definition empty_window :: rate_window where
  "empty_window = \<lparr>requests = [], tokens = []\<rparr>"

text \<open>\<open>rateLimits[modelKey]\<close>, created empty when absent.\<close>

definition window_of :: "world \<Rightarrow> string \<Rightarrow> rate_window" where
  "window_of w modelKey =
     (case rateLimits w modelKey of None \<Rightarrow> empty_window | Some win \<Rightarrow> win)"

text \<open>The two \<open>filter\<close> calls that drop the entries not newer than one minute ago.\<close>

definition prune :: "int \<Rightarrow> rate_window \<Rightarrow> rate_window" where
  "prune now win =
     (let oneMinuteAgo = now - 60000
      in \<lparr>requests = filter (\<lambda>timestamp. timestamp > oneMinuteAgo) (requests win),
          tokens = filter (\<lambda>entry. fst entry > oneMinuteAgo) (tokens win)\<rparr>)"

text \<open>
  \<open>checkRateLimits(modelKey)\<close>. The result is the message of the error thrown, if any,
  and the world. The timer of \<open>setTimeout\<close> is taken to fire exactly after
  \<open>waitTime\<close>. With an empty request list at the limit (\<open>rpm\<close> is 0) \<open>requests[0]\<close>
  is \<open>undefined\<close>, \<open>waitTime\<close> is \<open>NaN\<close>, nothing is awaited and the function
  calls itself until the stack is exhausted: the model returns that error.
\<close>

function checkRateLimits :: "env \<Rightarrow> string \<Rightarrow> world \<Rightarrow> string option \<times> world" where
  "checkRateLimits ev modelKey w =
     (case getModelInfo (modelData ev) modelKey of
        None \<Rightarrow> (None, w)
      | Some m \<Rightarrow>
          (let now = clock w;
               win = prune now (window_of w modelKey);
               w1 = w\<lparr>rateLimits := (rateLimits w)(modelKey \<mapsto> win)\<rparr>
           in if length (requests win) \<ge> rpm m
              then (case requests win of
                      [] \<Rightarrow> (Some ''Maximum call stack size exceeded'', w1)
                    | oldestRequest # _ \<Rightarrow>
                        (let waitTime = max 0 (oldestRequest + 60000 - now)
                         in checkRateLimits ev modelKey
                              (if waitTime > 0 then w1\<lparr>clock := now + waitTime\<rparr> else w1)))
              else (None, w1)))"
  by pat_completeness auto
termination
proof (relation "measure (\<lambda>(ev, modelKey, w).
          length (filter (\<lambda>t. t > clock w - 60000) (requests (window_of w modelKey))))",
       goal_cases)
  case 1
  show ?case by simp
next
  case (2 ev modelKey w m now win w1 oldestRequest rest waitTime)
  define old where "old = requests (window_of w modelKey)"
  have win: "requests win = filter (\<lambda>t. t > clock w - 60000) old"
    unfolding old_def 2(3) 2(2) by (simp add: prune_def Let_def)
  have mem: "oldestRequest \<in> set (filter (\<lambda>t. t > clock w - 60000) old)"
    using 2(6) win by (metis list.set_intros(1))
  have gt: "oldestRequest > clock w - 60000"
    using mem by simp
  have wt: "waitTime > 0" and nw: "now + waitTime = oldestRequest + 60000"
    using gt 2(7) 2(2) by auto
  define w2 where "w2 = (if waitTime > 0 then w1\<lparr>clock := now + waitTime\<rparr> else w1)"
  have c2: "clock w2 = oldestRequest + 60000"
    using wt nw by (simp add: w2_def)
  have r2: "requests (window_of w2 modelKey) = oldestRequest # rest"
    using wt 2(6) by (simp add: w2_def 2(4) window_of_def)
  have "length (filter (\<lambda>t. t > clock w2 - 60000) (requests (window_of w2 modelKey))) \<le> length rest"
    unfolding c2 r2 by (simp add: le_SucI)
  moreover have "length (filter (\<lambda>t. t > clock w - 60000) old) = Suc (length rest)"
    using win 2(6) by (metis length_Cons)
  ultimately show ?case
    unfolding w2_def old_def by simp
qed

text \<open>
  \<open>trackRequest(modelKey, inputTokens, outputTokens)\<close>. What it stores is also
  appended to \<open>recorded\<close>.
\<close>

definition trackRequest :: "string \<Rightarrow> rat \<Rightarrow> rat \<Rightarrow> world \<Rightarrow> world" where
  "trackRequest modelKey inputTokens outputTokens w =
     (if modelKey = [] then w
      else let win = window_of w modelKey;
               now = clock w;
               totalTokens = inputTokens + outputTokens
           in w\<lparr>rateLimits := (rateLimits w)(modelKey \<mapsto>
                  \<lparr>requests = requests win @ [now],
                   tokens = tokens win @ [(now, totalTokens)]\<rparr>),
                recorded := recorded w @ [(modelKey, now)]\<rparr>)"

section \<open>API client\<close>

text \<open>
  The \<open>await\<close> of \<open>axios.post\<close>: the exchange takes its time and the cancel route
  may run meanwhile.
\<close>

definition network :: "exchange \<Rightarrow> world \<Rightarrow> world" where
  "network x w =
     (let w1 = w\<lparr>clock := clock w + int (latency x)\<rparr>
      in if cancel_during x then cancelProcessing w1 else w1)"

text \<open>\<open>response.data.usage?.f || estimate\<close>: a missing or zero count falls back.\<close>

definition usage_or :: "nat option \<Rightarrow> rat \<Rightarrow> rat" where
  "usage_or count estimate =
     (case count of None \<Rightarrow> estimate | Some n \<Rightarrow> if n = 0 then estimate else of_nat n)"

text \<open>
  \<open>callMonicaApi(fileContent, prompt, model)\<close>. The result is \<open>Inr\<close> the content
  returned or \<open>Inl\<close> the message of the error thrown, with the rest of the script and
  the world; \<open>None\<close> when the script ends before the call does. Errors thrown inside
  the \<open>try\<close> block without \<open>response\<close> or \<open>request\<close> (missing configuration,
  a failing \<open>checkRateLimits\<close>, the unexpected response format) are rethrown
  unchanged by the last branch of the \<open>catch\<close> block.
\<close>

fun callMonicaApi ::
  "env \<Rightarrow> string \<Rightarrow> string \<Rightarrow> string \<Rightarrow> exchange list \<Rightarrow> world
     \<Rightarrow> ((string + string) \<times> exchange list \<times> world) option" where
  "callMonicaApi ev fileContent prompt model script w =
     (let apiKey = MONICA_API_KEY ev;
          apiEndpoint = MONICA_API_ENDPOINT ev;
          defaultModel = or_else (DEFAULT_MODEL ev) ''gpt-4o''
      in if apiKey = [] \<or> apiEndpoint = []
         then Some (Inl ''Monica API key or endpoint not configured'', script, w)
         else
          (let message = prompt @ ''\<newline>\<newline>File Content:\<newline>'' @ fileContent;
               selectedModel = or_else model defaultModel;
               estimatedInputTokens = rat_of_nat (length message) / 4;
               estimatedOutputTokens = estimatedInputTokens / 2
           in case checkRateLimits ev selectedModel (log_event (Admit selectedModel) w) of
                (Some msg, w1) \<Rightarrow> Some (Inl msg, script, w1)
              | (None, w1) \<Rightarrow>
                 (case script of
                    [] \<Rightarrow> None
                  | x # rest \<Rightarrow>
                     (let w2 = network x (log_event (Post selectedModel message) w1)
                      in case reply x of
                           Ok2xx usage content \<Rightarrow>
                             (let actualInputTokens =
                                    usage_or (map_option fst usage) estimatedInputTokens;
                                  actualOutputTokens =
                                    usage_or (map_option snd usage) estimatedOutputTokens;
                                  w3 = trackRequest selectedModel actualInputTokens actualOutputTokens
                                         (log_event (Record selectedModel) w2)
                              in case content of
                                   Some text \<Rightarrow> Some (Inr text, rest, w3)
                                 | None \<Rightarrow> Some (Inl ''Unexpected API response format'', rest, w3))
                         | HttpError st msg retry \<Rightarrow>
                            (if st = 400 \<and> msg \<noteq> [] \<and> includes_str msg ''maximum context length''
                             then Some (Inl (''Token limit exceeded: '' @ msg), rest, w2)
                             else if st = 429
                             then (let retryAfter = (case retry of None \<Rightarrow> 60 | Some n \<Rightarrow> n)
                                   in callMonicaApi ev fileContent prompt model rest
                                        (w2\<lparr>clock := clock w2 + int retryAfter * 1000\<rparr>))
                             else Some (Inl (''API error: '' @ digits st @ '' - ''
                                               @ or_else msg ''Unknown error''), rest, w2))
                         | NoResponse \<Rightarrow> Some (Inl ''No response received from API'', rest, w2)))))"

section \<open>Orchestrator\<close>

text \<open>
  \<open>processLargeFile\<close> declares \<open>const chunks = []\<close> and no statement of the file
  fills it: where the splitting would be there is only the comment
  \<open>... [existing chunking code] ...\<close>. \<open>source_chunks\<close> is the array the function
  as written builds. The loop over \<open>chunks\<close> is modelled for any chunking (a
  function of the content and of \<open>charsPerChunk\<close>), so that what is proved of the loop
  does not depend on the array being empty; the source is the instance
  \<open>source_chunks\<close>.
\<close>

definition source_chunks :: "string \<Rightarrow> nat \<Rightarrow> string list" where
  "source_chunks fileContent charsPerChunk = []"

definition chunk_placeholder :: "string \<Rightarrow> string" where
  "chunk_placeholder msg = ''[Error processing this chunk: '' @ msg @ '']''"

text \<open>
  The body of the \<open>for\<close> loop for index \<open>i\<close> (from 0) of \<open>n\<close> chunks: the string
  pushed to \<open>responses\<close>, the rest of the script and the world.
\<close>

definition chunkIteration ::
  "env \<Rightarrow> string \<Rightarrow> string \<Rightarrow> nat \<Rightarrow> nat \<Rightarrow> string \<Rightarrow> exchange list \<Rightarrow> world
     \<Rightarrow> (string \<times> exchange list \<times> world) option" where
  "chunkIteration ev prompt model n i chunk script w =
     (let chunkPrompt = prompt @ ''\<newline>\<newline>[This is chunk '' @ digits (i + 1) @ '' of ''
                          @ digits n @ '' from the original file]''
      in case checkRateLimits ev model (log_event (Admit model) w) of
           (Some msg, w1) \<Rightarrow>
             Some (chunk_placeholder msg, script,
                   updateProgress (\<lambda>p. p\<lparr>processedChunks := i + 1\<rparr>) w1)
         | (None, w1) \<Rightarrow>
            (case callMonicaApi ev chunk chunkPrompt model script
                    (log_event (Completion chunk chunkPrompt model) w1) of
               None \<Rightarrow> None
             | Some (Inr chunkResponse, script', w2) \<Rightarrow>
                 Some (chunkResponse, script',
                       updateProgress
                         (\<lambda>p. p\<lparr>processedChunks := i + 1,
                                 estimatedEndTime :=
                                   (let start = (case startTime p of None \<Rightarrow> 0 | Some t \<Rightarrow> t)
                                    in Some (of_int start
                                         + of_int (clock w2 - start) / of_nat (i + 1) * of_nat n))\<rparr>)
                         w2)
             | Some (Inl msg, script', w2) \<Rightarrow>
                 Some (chunk_placeholder msg, script',
                       updateProgress (\<lambda>p. p\<lparr>processedChunks := i + 1\<rparr>) w2)))"

text \<open>The \<open>for\<close> loop, from index \<open>i\<close> on, over the chunks still to process.\<close>

fun processChunks ::
  "env \<Rightarrow> string \<Rightarrow> string \<Rightarrow> nat \<Rightarrow> nat \<Rightarrow> string list \<Rightarrow> string list \<Rightarrow> exchange list
     \<Rightarrow> world \<Rightarrow> (string list \<times> exchange list \<times> world) option" where
  "processChunks ev prompt model n i [] responses script w = Some (responses, script, w)"
| "processChunks ev prompt model n i (chunk # rest) responses script w =
     (case chunkIteration ev prompt model n i chunk script w of
        None \<Rightarrow> None
      | Some (r, script', w') \<Rightarrow>
          processChunks ev prompt model n (i + 1) rest (responses @ [r]) script' w')"

definition processLargeFile ::
  "(string \<Rightarrow> nat \<Rightarrow> string list) \<Rightarrow> env \<Rightarrow> string \<Rightarrow> string \<Rightarrow> string \<Rightarrow> nat
     \<Rightarrow> exchange list \<Rightarrow> world \<Rightarrow> ((string + string) \<times> exchange list \<times> world) option" where
  "processLargeFile chunking ev fileContent prompt model maxTokensPerChunk script w =
     (let charsPerChunk = maxTokensPerChunk * 4;
          chunks = chunking fileContent charsPerChunk;
          w1 = updateProgress (\<lambda>p. p\<lparr>totalChunks := length chunks, processedChunks := 0\<rparr>) w
      in case processChunks ev prompt model (length chunks) 0 chunks [] script w1 of
           None \<Rightarrow> None
         | Some (responses, script', w2) \<Rightarrow>
             Some (Inr (join ''\<newline>\<newline> Next Chunk \<newline>\<newline>'' responses), script', w2))"

text \<open>The \<open>else\<close> branch of \<open>processFile\<close>: the file as one unit.\<close>

definition processSingle ::
  "env \<Rightarrow> string \<Rightarrow> string \<Rightarrow> string \<Rightarrow> exchange list \<Rightarrow> world
     \<Rightarrow> ((string + string) \<times> exchange list \<times> world) option" where
  "processSingle ev fileContent prompt selectedModel script w =
     (let w1 = updateProgress (\<lambda>p. p\<lparr>totalChunks := 1, processedChunks := 0\<rparr>) w
      in case callMonicaApi ev fileContent prompt selectedModel script
                (log_event (Completion fileContent prompt selectedModel) w1) of
           None \<Rightarrow> None
         | Some (Inl msg, script', w2) \<Rightarrow> Some (Inl msg, script', w2)
         | Some (Inr response, script', w2) \<Rightarrow>
             Some (Inr response, script', updateProgress (\<lambda>p. p\<lparr>processedChunks := 1\<rparr>) w2))"

text \<open>The \<open>catch\<close> block of \<open>processFile\<close>, entered with the message of the error caught.\<close>

definition processFile_catch ::
  "string \<Rightarrow> string \<Rightarrow> int \<Rightarrow> string \<Rightarrow> world \<Rightarrow> (string + string) \<times> world" where
  "processFile_catch inputPath model t0 msg w =
     (let duration = clock w - t0
      in (Inl (''Failed to process file: '' @ msg),
          updateProgress
            (\<lambda>p. p\<lparr>status := Error, error := Some msg,
                    processingHistory := slice_last9 (processingHistory p) @
                      [\<lparr>h_file = basename inputPath, h_model = or_else model ''default'',
                        h_duration = duration, h_timestamp = clock w, h_success = False,
                        h_error = Some msg\<rparr>]\<rparr>) w))"

text \<open>The end of the \<open>try\<close> block of \<open>processFile\<close>, from \<open>fs.writeFile\<close> on.\<close>

definition processFile_finish ::
  "env \<Rightarrow> string \<Rightarrow> string \<Rightarrow> string \<Rightarrow> string \<Rightarrow> int \<Rightarrow> string \<Rightarrow> world
     \<Rightarrow> (string + string) \<times> world" where
  "processFile_finish ev inputPath outputPath model selectedModel t0 response w =
     (case writeFile ev outputPath response of
        Some msg \<Rightarrow> processFile_catch inputPath model t0 msg w
      | None \<Rightarrow>
          (let w1 = log_event (Write outputPath response) w;
               duration = clock w1 - t0
           in (Inr outputPath,
               updateProgress
                 (\<lambda>p. p\<lparr>status := Completed, error := None,
                         processingHistory := slice_last9 (processingHistory p) @
                           [\<lparr>h_file = basename inputPath, h_model = selectedModel,
                             h_duration = duration, h_timestamp = clock w1, h_success = True,
                             h_error = None\<rparr>]\<rparr>) w1)))"

text \<open>
  \<open>processFile(inputPath, outputPath, prompt, model)\<close>: \<open>Inr\<close> the output path
  returned or \<open>Inl\<close> the message of the error thrown. \<open>Math.floor(limit * 0.8)\<close>
  and \<open>length / 4\<close> are computed exactly.
\<close>

definition processFile ::
  "(string \<Rightarrow> nat \<Rightarrow> string list) \<Rightarrow> env \<Rightarrow> string \<Rightarrow> string \<Rightarrow> string \<Rightarrow> string
     \<Rightarrow> exchange list \<Rightarrow> world \<Rightarrow> ((string + string) \<times> exchange list \<times> world) option" where
  "processFile chunking ev inputPath outputPath prompt model script w =
     (let t0 = clock w;
          w1 = snd (trackFileProcessing inputPath w);
          w2 = updateProgress
                 (\<lambda>p. p\<lparr>status := Processing, startTime := Some t0, totalChunks := 0,
                         processedChunks := 0, error := None\<rparr>) w1
      in case readFile ev inputPath of
           Inl msg \<Rightarrow>
             (let (r, w3) = processFile_catch inputPath model t0 msg w2 in Some (r, script, w3))
         | Inr fileContent \<Rightarrow>
            (let selectedModel = or_else model (or_else (DEFAULT_MODEL ev) ''gpt-4o'');
                 modelTokenLimit = getModelTokenLimit (modelData ev) selectedModel;
                 MAX_TOKENS_PER_CHUNK = nat \<lfloor>rat_of_nat modelTokenLimit * (8 / 10)\<rfloor>;
                 estimatedTokens = rat_of_nat (length fileContent) / 4
             in case (if estimatedTokens > rat_of_nat MAX_TOKENS_PER_CHUNK
                      then processLargeFile chunking ev fileContent prompt selectedModel
                             MAX_TOKENS_PER_CHUNK script w2
                      else processSingle ev fileContent prompt selectedModel script w2) of
                  None \<Rightarrow> None
                | Some (Inl msg, script', w3) \<Rightarrow>
                    (let (r, w4) = processFile_catch inputPath model t0 msg w3
                     in Some (r, script', w4))
                | Some (Inr response, script', w3) \<Rightarrow>
                    (let (r, w4) = processFile_finish ev inputPath outputPath model selectedModel
                                     t0 response w3
                     in Some (r, script', w4))))"

section \<open>Initial state and sample inputs\<close>

text \<open>\<open>processingProgress\<close> and \<open>rateLimits\<close> as the module creates them at time \<open>t\<close>.\<close>

definition initial_progress :: "int \<Rightarrow> progress" where
  "initial_progress t =
     \<lparr>currentFile = None, currentFileNumber = 0, totalFiles = 0, totalChunks = 0,
      processedChunks = 0, startTime = None, estimatedEndTime = None, status = Idle,
      error = None, lastUpdated = t, processingHistory = [],
      processedFiles = {}, cancelled = False\<rparr>"

definition initial_world :: "int \<Rightarrow> world" where
  "initial_world t =
     \<lparr>processingProgress = initial_progress t, rateLimits = Map.empty, clock = t, events = [],
      recorded = []\<rparr>"

text \<open>The state while a file is being processed: \<open>status\<close> is \<open>processing\<close>.\<close>

definition processing_world :: "int \<Rightarrow> world" where
  "processing_world t =
     (initial_world t)\<lparr>processingProgress :=
        (initial_progress t)\<lparr>status := Processing, startTime := Some t\<rparr>\<rparr>"

text \<open>
  A configured environment with one registered model \<open>m\<close> (token limit \<open>limit\<close>, \<open>r\<close>
  requests per minute), whose input file holds \<open>content\<close> and whose writes succeed.
\<close>

definition sample_env :: "nat \<Rightarrow> nat \<Rightarrow> string \<Rightarrow> env" where
  "sample_env limit r content =
     \<lparr>modelData = [\<lparr>key = ''m'', tokenLimit = limit, rpm = r\<rparr>],
      MONICA_API_KEY = ''secret'', MONICA_API_ENDPOINT = ''https://api'', DEFAULT_MODEL = [],
      readFile = (\<lambda>p. Inr content), writeFile = (\<lambda>p t. None)\<rparr>"

definition ok_exchange :: "string \<Rightarrow> exchange" where
  "ok_exchange text = \<lparr>latency = 5, cancel_during = False, reply = Ok2xx None (Some text)\<rparr>"




text \<open>
  Two requests of model \<open>m\<close> (at most 2 per minute) admitted and recorded back to back
  at time 0, starting from the initial state.
\<close>

definition after_two_requests :: world where
  "after_two_requests =
     (let E = sample_env 10000 2 [];
          w1 = trackRequest ''m'' 10 5 (snd (checkRateLimits E ''m'' (initial_world 0)));
          w2 = trackRequest ''m'' 10 5 (snd (checkRateLimits E ''m'' w1))
      in w2)"

section \<open>Notions used in the statements\<close>

text \<open>
  The definitions of this section are not functions of the service. They name parts of
  its functions, or what is observed of a run, so that the theorems can speak of them; the
  lemmas \<open>callMonicaApi_unconfigured\<close> to \<open>callMonicaApi_settled\<close>,
  \<open>chunkIteration_call\<close> and \<open>processFile_unfold\<close> tie them to the functions.
\<close>

subsection \<open>Rate limiter\<close>

text \<open>The timestamps of a list that are newer than one minute before \<open>now\<close>.\<close>

definition in_window :: "int \<Rightarrow> int list \<Rightarrow> int list" where
  "in_window now ts = filter (\<lambda>t. now - 60000 < t) ts"

text \<open>The world after the pruning step of \<open>checkRateLimits\<close> for one key.\<close>

definition pruned :: "string \<Rightarrow> world \<Rightarrow> world" where
  "pruned k w = w\<lparr>rateLimits := (rateLimits w)(k \<mapsto> prune (clock w) (window_of w k))\<rparr>"

text \<open>
  The number of recorded timestamps in the trailing 60 second window that ends at \<open>t\<close>
  (later than \<open>t - 60000\<close> and not later than \<open>t\<close>, as the pruning of
  \<open>checkRateLimits\<close> counts them), and the bound of \<open>R\<close> requests on every such window.
\<close>

definition recorded_in_window :: "int \<Rightarrow> int list \<Rightarrow> nat" where
  "recorded_in_window t ts = length (filter (\<lambda>x. t - 60000 < x \<and> x \<le> t) ts)"

definition within_rpm :: "nat \<Rightarrow> int list \<Rightarrow> bool" where
  "within_rpm R ts = (\<forall>t. recorded_in_window t ts \<le> R)"

text \<open>
  \<open>checkRateLimits\<close> returns without an error for this key: the key has no registry
  entry, or its \<open>rpm\<close> is positive (as the registry's data model requires).
\<close>

definition admits :: "env \<Rightarrow> string \<Rightarrow> bool" where
  "admits ev k = (case getModelInfo (modelData ev) k of None \<Rightarrow> True | Some m \<Rightarrow> 0 < rpm m)"

text \<open>The times recorded for a key, from the start of the process on.\<close>

definition history :: "string \<Rightarrow> world \<Rightarrow> int list" where
  "history k w = map snd (filter (\<lambda>e. fst e = k) (recorded w))"

text \<open>
  For every registered key with a positive \<open>rpm\<close>: the times ever recorded for it hold
  at most \<open>rpm\<close> requests in every trailing 60 second window, none lies in the future,
  and the request list kept for the key still holds all of them that are newer than one
  minute.
\<close>

definition rate_history_ok :: "env \<Rightarrow> world \<Rightarrow> bool" where
  "rate_history_ok ev w =
     (\<forall>k m. getModelInfo (modelData ev) k = Some m \<and> 0 < rpm m \<longrightarrow>
        within_rpm (rpm m) (history k w)
        \<and> (\<forall>x\<in>set (history k w). x \<le> clock w)
        \<and> in_window (clock w) (history k w) = in_window (clock w) (requests (window_of w k)))"

text \<open>The request list kept for the key is below the limit: a request may be recorded.\<close>

definition slot_free :: "env \<Rightarrow> string \<Rightarrow> world \<Rightarrow> bool" where
  "slot_free ev k w =
     (\<forall>m. getModelInfo (modelData ev) k = Some m \<and> 0 < rpm m \<longrightarrow>
        length (requests (window_of w k)) < rpm m)"

subsection \<open>API client\<close>

text \<open>Endpoint and credential are both set.\<close>

definition configured :: "env \<Rightarrow> bool" where
  "configured ev = (MONICA_API_KEY ev \<noteq> [] \<and> MONICA_API_ENDPOINT ev \<noteq> [])"

text \<open>\<open>model || process.env.DEFAULT_MODEL || 'gpt-4o'\<close>.\<close>

definition selected :: "env \<Rightarrow> string \<Rightarrow> string" where
  "selected ev model = or_else model (or_else (DEFAULT_MODEL ev) ''gpt-4o'')"

text \<open>The single user message built from prompt and content.\<close>

definition api_message :: "string \<Rightarrow> string \<Rightarrow> string" where
  "api_message prompt fileContent = prompt @ ''\<newline>\<newline>File Content:\<newline>'' @ fileContent"

text \<open>The reply is a 429, which \<open>callMonicaApi\<close> retries; the reply is a 2xx.\<close>

definition is_429 :: "exchange \<Rightarrow> bool" where
  "is_429 x = (case reply x of HttpError st msg retry \<Rightarrow> st = 429 | _ \<Rightarrow> False)"


text \<open>What \<open>callMonicaApi\<close> returns or throws on a reply that it does not retry.\<close>

definition reply_result :: "reply \<Rightarrow> string + string" where
  "reply_result rp =
     (case rp of
        Ok2xx usage content \<Rightarrow>
          (case content of Some text \<Rightarrow> Inr text | None \<Rightarrow> Inl ''Unexpected API response format'')
      | HttpError st msg retry \<Rightarrow>
          (if st = 400 \<and> msg \<noteq> [] \<and> includes_str msg ''maximum context length''
           then Inl (''Token limit exceeded: '' @ msg)
           else Inl (''API error: '' @ digits st @ '' - '' @ or_else msg ''Unknown error''))
      | NoResponse \<Rightarrow> Inl ''No response received from API'')"

text \<open>The wait of \<open>retry-after\<close> seconds (60 when the header is absent) before the retry.\<close>

definition after_429 :: "exchange \<Rightarrow> world \<Rightarrow> world" where
  "after_429 x w =
     (case reply x of
        HttpError st msg retry \<Rightarrow>
          w\<lparr>clock := clock w + int (case retry of None \<Rightarrow> 60 | Some n \<Rightarrow> n) * 1000\<rparr>
      | _ \<Rightarrow> w)"

text \<open>The bookkeeping after a reply that is not retried: a 2xx reply is recorded.\<close>

definition settle :: "string \<Rightarrow> string \<Rightarrow> exchange \<Rightarrow> world \<Rightarrow> world" where
  "settle sel message x w =
     (case reply x of
        Ok2xx usage content \<Rightarrow>
          trackRequest sel
            (usage_or (map_option fst usage) (rat_of_nat (length message) / 4))
            (usage_or (map_option snd usage) (rat_of_nat (length message) / 4 / 2))
            (log_event (Record sel) w)
      | _ \<Rightarrow> w)"


text \<open>The number of exchanges of a script that are not 429 replies: each ends one call.\<close>

definition settled_count :: "exchange list \<Rightarrow> nat" where
  "settled_count script = length (filter (\<lambda>x. \<not> is_429 x) script)"

subsection \<open>Orchestrator\<close>

text \<open>The invocations of \<open>callMonicaApi\<close> by the orchestrator so far.\<close>

definition is_completion :: "event \<Rightarrow> bool" where
  "is_completion e = (case e of Completion c p m \<Rightarrow> True | _ \<Rightarrow> False)"

definition completions :: "world \<Rightarrow> nat" where
  "completions w = length (filter is_completion (events w))"

text \<open>The prompt of chunk \<open>i\<close> (from 0) of \<open>n\<close>, and the separator of the joined output.\<close>

definition chunk_prompt :: "string \<Rightarrow> nat \<Rightarrow> nat \<Rightarrow> string" where
  "chunk_prompt prompt i n =
     prompt @ ''\<newline>\<newline>[This is chunk '' @ digits (i + 1) @ '' of '' @ digits n
       @ '' from the original file]''"

definition chunk_separator :: string where
  "chunk_separator = ''\<newline>\<newline> Next Chunk \<newline>\<newline>''"


text \<open>
  The linear extrapolation \<open>startTime + (now - startTime) / done * n\<close>; a \<open>null\<close>
  start counts as 0, as in JavaScript arithmetic.
\<close>

definition estimate_end :: "int option \<Rightarrow> int \<Rightarrow> nat \<Rightarrow> nat \<Rightarrow> rat" where
  "estimate_end start now done n =
     (let s = (case start of None \<Rightarrow> 0 | Some t \<Rightarrow> t)
      in of_int s + of_int (now - s) / of_nat done * of_nat n)"

text \<open>\<open>Math.floor(modelTokenLimit * 0.8)\<close>.\<close>

definition max_tokens :: "nat \<Rightarrow> nat" where
  "max_tokens modelTokenLimit = nat \<lfloor>rat_of_nat modelTokenLimit * (8 / 10)\<rfloor>"

text \<open>The world after the first two steps of \<open>processFile\<close>: the file tracked, the status set.\<close>

definition started :: "string \<Rightarrow> world \<Rightarrow> world" where
  "started inputPath w =
     updateProgress
       (\<lambda>p. p\<lparr>status := Processing, startTime := Some (clock w), totalChunks := 0,
               processedChunks := 0, error := None\<rparr>)
       (snd (trackFileProcessing inputPath w))"

text \<open>The branch of \<open>processFile\<close> on the size of the content that was read.\<close>

definition process_content ::
  "(string \<Rightarrow> nat \<Rightarrow> string list) \<Rightarrow> env \<Rightarrow> string \<Rightarrow> string \<Rightarrow> string \<Rightarrow> exchange list
     \<Rightarrow> world \<Rightarrow> ((string + string) \<times> exchange list \<times> world) option" where
  "process_content chunking ev fc prompt sel script w =
     (if rat_of_nat (length fc) / 4 > rat_of_nat (max_tokens (getModelTokenLimit (modelData ev) sel))
      then processLargeFile chunking ev fc prompt sel
             (max_tokens (getModelTokenLimit (modelData ev) sel)) script w
      else processSingle ev fc prompt sel script w)"

text \<open>
  The number of calls of \<open>callMonicaApi\<close> that a run of \<open>processFile\<close> can make:
  none when the file cannot be read, one for a small file, one per chunk otherwise.
\<close>

definition calls_needed :: "(string \<Rightarrow> nat \<Rightarrow> string list) \<Rightarrow> env \<Rightarrow> string \<Rightarrow> string \<Rightarrow> nat" where
  "calls_needed chunking ev inputPath model =
     (case readFile ev inputPath of
        Inl msg \<Rightarrow> 0
      | Inr fc \<Rightarrow>
          (let M = max_tokens (getModelTokenLimit (modelData ev) (selected ev model))
           in if rat_of_nat (length fc) / 4 > rat_of_nat M
              then length (chunking fc (M * 4)) else 1))"

text \<open>
  What a call of the API client, and what the chunk loop, leave unchanged in the world.
  The flag \<open>cancelled\<close> can only be raised.
\<close>

definition api_frame :: "world \<Rightarrow> world \<Rightarrow> bool" where
  "api_frame w w' =
     (clock w \<le> clock w'
      \<and> completions w' = completions w
      \<and> processingHistory (processingProgress w') = processingHistory (processingProgress w)
      \<and> totalChunks (processingProgress w') = totalChunks (processingProgress w)
      \<and> processedChunks (processingProgress w') = processedChunks (processingProgress w)
      \<and> startTime (processingProgress w') = startTime (processingProgress w)
      \<and> estimatedEndTime (processingProgress w') = estimatedEndTime (processingProgress w)
      \<and> (cancelled (processingProgress w) \<longrightarrow> cancelled (processingProgress w')))"

definition loop_frame :: "world \<Rightarrow> world \<Rightarrow> bool" where
  "loop_frame w w' =
     (clock w \<le> clock w'
      \<and> processingHistory (processingProgress w') = processingHistory (processingProgress w)
      \<and> totalChunks (processingProgress w') = totalChunks (processingProgress w)
      \<and> startTime (processingProgress w') = startTime (processingProgress w)
      \<and> (cancelled (processingProgress w) \<longrightarrow> cancelled (processingProgress w')))"

section \<open>Lemmas\<close>

text \<open>
  The recursive equations of \<open>checkRateLimits\<close>, \<open>callMonicaApi\<close> and \<open>digits\<close>
  are unfolded only where a proof asks for them.
\<close>

subsection \<open>What the primitive steps change\<close>

declare checkRateLimits.simps [simp del]

declare callMonicaApi.simps [simp del]

lemma requests_prune [simp]:
  "requests (prune now win) = filter (\<lambda>t. now - 60000 < t) (requests win)"
  by (simp add: prune_def Let_def)

lemma tokens_prune [simp]:
  "tokens (prune now win) = filter (\<lambda>e. now - 60000 < fst e) (tokens win)"
  by (simp add: prune_def Let_def)

lemma updateProgress_sel [simp]:
  "clock (updateProgress f w) = clock w"
  "events (updateProgress f w) = events w"
  "rateLimits (updateProgress f w) = rateLimits w"
  "processingProgress (updateProgress f w) = (f (processingProgress w))\<lparr>lastUpdated := clock w\<rparr>"
  by (simp_all add: updateProgress_def)

lemma log_event_sel [simp]:
  "clock (log_event e w) = clock w"
  "events (log_event e w) = events w @ [e]"
  "rateLimits (log_event e w) = rateLimits w"
  "processingProgress (log_event e w) = processingProgress w"
  by (simp_all add: log_event_def)

lemma cancelProcessing_sel [simp]:
  "clock (cancelProcessing w) = clock w"
  "events (cancelProcessing w) = events w"
  "rateLimits (cancelProcessing w) = rateLimits w"
  by (simp_all add: cancelProcessing_def)

lemma network_sel [simp]:
  "clock (network x w) = clock w + int (latency x)"
  "events (network x w) = events w"
  "rateLimits (network x w) = rateLimits w"
  by (simp_all add: network_def Let_def)

lemma trackRequest_sel [simp]:
  "clock (trackRequest k a b w) = clock w"
  "events (trackRequest k a b w) = events w"
  "processingProgress (trackRequest k a b w) = processingProgress w"
  by (simp_all add: trackRequest_def Let_def)

lemma window_of_sel [simp]:
  "window_of (updateProgress f w) = window_of w"
  "window_of (log_event e w) = window_of w"
  "window_of (cancelProcessing w) = window_of w"
  "window_of (network x w) = window_of w"
  "window_of (w\<lparr>clock := c\<rparr>) = window_of w"
  by (simp_all add: window_of_def fun_eq_iff)

subsection \<open>Rate limiter: the passes of the check and its result\<close>

lemma filter_Cons_head: "filter P xs = y # ys \<Longrightarrow> P y"
proof -
  assume "filter P xs = y # ys"
  then have "y \<in> set (filter P xs)" by simp
  then show "P y" by simp
qed

lemma checkRateLimits_unregistered:
  "getModelInfo (modelData ev) k = None \<Longrightarrow> checkRateLimits ev k w = (None, w)"
  by (subst checkRateLimits.simps) simp

lemma checkRateLimits_free:
  assumes "getModelInfo (modelData ev) k = Some m"
    and "length (in_window (clock w) (requests (window_of w k))) < rpm m"
  shows "checkRateLimits ev k w = (None, pruned k w)"
  using assms by (subst checkRateLimits.simps) (simp add: in_window_def pruned_def Let_def)

lemma checkRateLimits_overflow:
  assumes "getModelInfo (modelData ev) k = Some m"
    and "rpm m \<le> length (in_window (clock w) (requests (window_of w k)))"
    and "in_window (clock w) (requests (window_of w k)) = []"
  shows "checkRateLimits ev k w = (Some ''Maximum call stack size exceeded'', pruned k w)"
  using assms by (subst checkRateLimits.simps) (simp add: in_window_def pruned_def Let_def)

lemma checkRateLimits_wait:
  assumes "getModelInfo (modelData ev) k = Some m"
    and "rpm m \<le> length (in_window (clock w) (requests (window_of w k)))"
    and "in_window (clock w) (requests (window_of w k)) = oldest # rest"
  shows "checkRateLimits ev k w = checkRateLimits ev k ((pruned k w)\<lparr>clock := oldest + 60000\<rparr>)"
proof -
  have "clock w - 60000 < oldest"
    using assms(3) unfolding in_window_def by (rule filter_Cons_head)
  then show ?thesis
    using assms by (subst checkRateLimits.simps) (simp add: in_window_def pruned_def Let_def)
qed

lemma pruned_sel [simp]:
  "clock (pruned k w) = clock w"
  "events (pruned k w) = events w"
  "processingProgress (pruned k w) = processingProgress w"
  "rateLimits (pruned k w) = (rateLimits w)(k \<mapsto> prune (clock w) (window_of w k))"
  by (simp_all add: pruned_def)

lemma window_of_pruned [simp]: "window_of (pruned k w) k = prune (clock w) (window_of w k)"
  by (simp add: pruned_def window_of_def)

lemma prune_prune: "c1 \<le> c2 \<Longrightarrow> prune c2 (prune c1 win) = prune c2 win"
  by (auto simp add: prune_def Let_def intro!: filter_cong)

lemma checkRateLimits_spec:
  assumes reg: "getModelInfo (modelData ev) k = Some m"
  shows "\<exists>a w'. checkRateLimits ev k w = (a, w')
           \<and> clock w \<le> clock w' \<and> events w' = events w
           \<and> processingProgress w' = processingProgress w
           \<and> rateLimits w' = (rateLimits w)(k \<mapsto> prune (clock w') (window_of w k))
           \<and> (case a of None \<Rightarrow> length (requests (window_of w' k)) < rpm m
                        | Some msg \<Rightarrow> rpm m = 0 \<and> msg = ''Maximum call stack size exceeded'')
           \<and> (length (in_window (clock w) (requests (window_of w k))) < rpm m \<longrightarrow> clock w' = clock w)
           \<and> (\<forall>oldest rest. rpm m \<le> length (in_window (clock w) (requests (window_of w k)))
                  \<and> in_window (clock w) (requests (window_of w k)) = oldest # rest
                  \<longrightarrow> oldest + 60000 \<le> clock w')"
proof (induction "length (in_window (clock w) (requests (window_of w k)))" arbitrary: w rule: less_induct)
  case less
  let ?ts = "in_window (clock w) (requests (window_of w k))"
  consider (free) "length ?ts < rpm m"
    | (overflow) "rpm m \<le> length ?ts" "?ts = []"
    | (wait) oldest rest where "rpm m \<le> length ?ts" "?ts = oldest # rest"
    by (cases ?ts; cases "length ?ts < rpm m") (auto simp: not_less)
  then show ?case
  proof cases
    case free
    have win: "window_of (pruned k w) k = prune (clock w) (window_of w k)" by simp
    show ?thesis
      using free checkRateLimits_free [OF reg free]
      by (simp add: win in_window_def)
  next
    case overflow
    show ?thesis
      using overflow checkRateLimits_overflow [OF reg overflow]
      by (simp add: in_window_def)
  next
    case wait
    define w2 where "w2 = (pruned k w)\<lparr>clock := oldest + 60000\<rparr>"
    have old: "clock w - 60000 < oldest"
      using wait(2) unfolding in_window_def by (rule filter_Cons_head)
    have c2: "clock w2 = oldest + 60000" and e2: "events w2 = events w"
      and p2: "processingProgress w2 = processingProgress w"
      by (simp_all add: w2_def)
    have win2: "window_of w2 k = prune (clock w) (window_of w k)"
      by (simp add: w2_def)
    have r2: "rateLimits w2 = (rateLimits w)(k \<mapsto> prune (clock w) (window_of w k))"
      by (simp add: w2_def)
    have ts2: "in_window (clock w2) (requests (window_of w2 k)) = filter (\<lambda>t. oldest < t) rest"
      using wait(2) by (simp add: win2 c2 in_window_def)
    have "length (in_window (clock w2) (requests (window_of w2 k))) < length ?ts"
      unfolding ts2 wait(2) by (simp add: le_imp_less_Suc)
    from less [OF this] obtain a w' where
      run: "checkRateLimits ev k w2 = (a, w')"
      and ck: "clock w2 \<le> clock w'" and ev': "events w' = events w2"
      and pp: "processingProgress w' = processingProgress w2"
      and rl: "rateLimits w' = (rateLimits w2)(k \<mapsto> prune (clock w') (window_of w2 k))"
      and res: "(case a of None \<Rightarrow> length (requests (window_of w' k)) < rpm m
                        | Some msg \<Rightarrow> rpm m = 0 \<and> msg = ''Maximum call stack size exceeded'')"
      by blast
    have eq: "checkRateLimits ev k w = checkRateLimits ev k w2"
      unfolding w2_def by (rule checkRateLimits_wait [OF reg wait])
    have le: "clock w \<le> clock w'"
      using ck c2 old by linarith
    have "prune (clock w') (window_of w2 k) = prune (clock w') (window_of w k)"
      unfolding win2 using le by (rule prune_prune)
    then have rl': "rateLimits w' = (rateLimits w)(k \<mapsto> prune (clock w') (window_of w k))"
      using rl r2 by simp
    show ?thesis
      using eq run le ev' e2 pp p2 rl' res ck c2 wait by simp
  qed
qed

lemma getModelInfo_nonempty: "getModelInfo ms k = Some m \<Longrightarrow> k \<noteq> []"
  by (auto simp: getModelInfo_def)

lemma requests_trackRequest:
  "k \<noteq> [] \<Longrightarrow> requests (window_of (trackRequest k a b w) k) = requests (window_of w k) @ [clock w]"
  by (simp add: trackRequest_def window_of_def Let_def)

lemma within_rpm_snoc:
  assumes within: "within_rpm R ts"
    and free: "length (in_window now ts) < R"
    and later: "now \<le> c"
  shows "within_rpm R (ts @ [c])"
  unfolding within_rpm_def
proof
  fix t
  show "recorded_in_window t (ts @ [c]) \<le> R"
  proof (cases "t - 60000 < c \<and> c \<le> t")
    case True
    have "filter (\<lambda>x. t - 60000 < x \<and> x \<le> t) ts
            = filter (\<lambda>x. t - 60000 < x \<and> x \<le> t) (in_window now ts)"
      unfolding in_window_def using True later by (auto intro!: filter_cong)
    then have "recorded_in_window t ts \<le> length (in_window now ts)"
      unfolding recorded_in_window_def by simp
    with free True show ?thesis
      by (simp add: recorded_in_window_def)
  next
    case False
    then have "recorded_in_window t (ts @ [c]) = recorded_in_window t ts"
      by (auto simp: recorded_in_window_def)
    with within show ?thesis
      by (simp add: within_rpm_def)
  qed
qed

lemma in_window_past:
  assumes "\<forall>x\<in>set ts. x \<le> now"
  shows "length (in_window now ts) = recorded_in_window now ts"
proof -
  have "filter (\<lambda>t. now - 60000 < t) ts = filter (\<lambda>x. now - 60000 < x \<and> x \<le> now) ts"
    using assms by (auto intro!: filter_cong)
  then show ?thesis
    by (simp add: in_window_def recorded_in_window_def)
qed

lemma checkRateLimits_admits:
  assumes reg: "getModelInfo (modelData ev) k = Some m"
    and pos: "0 < rpm m"
    and past: "\<forall>x\<in>set (requests (window_of w k)). x \<le> clock w"
    and within: "within_rpm (rpm m) (requests (window_of w k))"
  shows "\<exists>c. clock w \<le> c
           \<and> checkRateLimits ev k w = (None, (pruned k w)\<lparr>clock := c, rateLimits := (rateLimits w)(k \<mapsto> prune c (window_of w k))\<rparr>)
           \<and> length (in_window c (requests (window_of w k))) < rpm m
           \<and> c = (if length (in_window (clock w) (requests (window_of w k))) < rpm m then clock w
                   else hd (in_window (clock w) (requests (window_of w k))) + 60000)"
proof (cases "length (in_window (clock w) (requests (window_of w k))) < rpm m")
  case True
  have "(pruned k w)\<lparr>clock := clock w, rateLimits := (rateLimits w)(k \<mapsto> prune (clock w) (window_of w k))\<rparr> = pruned k w"
    by (simp add: pruned_def)
  then show ?thesis
    using True checkRateLimits_free [OF reg True] by simp
next
  case False
  let ?ts = "in_window (clock w) (requests (window_of w k))"
  have atlimit: "rpm m \<le> length ?ts" using False by simp
  then obtain oldest rest where ts: "?ts = oldest # rest"
    using pos by (cases ?ts) auto
  have "length ?ts \<le> rpm m"
    using within in_window_past [OF past] by (simp add: within_rpm_def)
  with atlimit have len: "length rest < rpm m"
    using ts by simp
  define w2 where "w2 = (pruned k w)\<lparr>clock := oldest + 60000\<rparr>"
  have old: "clock w - 60000 < oldest"
    using ts unfolding in_window_def by (rule filter_Cons_head)
  have win2: "window_of w2 k = prune (clock w) (window_of w k)" and c2: "clock w2 = oldest + 60000"
    by (simp_all add: w2_def)
  have ts2: "in_window (clock w2) (requests (window_of w2 k)) = filter (\<lambda>t. oldest < t) rest"
    using ts by (simp add: win2 c2 in_window_def)
  have free2: "length (in_window (clock w2) (requests (window_of w2 k))) < rpm m"
    unfolding ts2 using len by (rule le_less_trans [OF length_filter_le])
  have run: "checkRateLimits ev k w = (None, pruned k w2)"
    using checkRateLimits_wait [OF reg atlimit ts] checkRateLimits_free [OF reg free2]
    by (simp add: w2_def)
  have le: "clock w \<le> oldest + 60000" using old by simp
  have pp: "prune (oldest + 60000) (prune (clock w) (window_of w k)) = prune (oldest + 60000) (window_of w k)"
    using le by (rule prune_prune)
  have "pruned k w2 = w2\<lparr>rateLimits := (rateLimits w2)(k \<mapsto> prune (oldest + 60000) (window_of w k))\<rparr>"
    unfolding pruned_def [of k w2] win2 c2 pp ..
  then have shape: "pruned k w2 = (pruned k w)\<lparr>clock := oldest + 60000,
                  rateLimits := (rateLimits w)(k \<mapsto> prune (oldest + 60000) (window_of w k))\<rparr>"
    by (simp add: w2_def pruned_def)
  have "requests (prune (oldest + 60000) (window_of w k))
          = requests (prune (clock w2) (window_of w2 k))"
    unfolding win2 c2 pp ..
  then have "in_window (oldest + 60000) (requests (window_of w k))
          = in_window (clock w2) (requests (window_of w2 k))"
    by (simp only: requests_prune in_window_def)
  then have "length (in_window (oldest + 60000) (requests (window_of w k))) < rpm m"
    using free2 by simp
  then show ?thesis
    using run shape le False ts by simp
qed

subsection \<open>API client: the cases of one call, its frame, its actions, its return\<close>

lemma selected_nonempty [simp]: "selected ev model \<noteq> []"
  by (simp add: selected_def or_else_def)

lemma selected_idem [simp]: "selected ev (selected ev model) = selected ev model"
  by (simp add: selected_def or_else_def)

lemma callMonicaApi_unconfigured:
  "\<not> configured ev \<Longrightarrow>
     callMonicaApi ev fc p model script w
       = Some (Inl ''Monica API key or endpoint not configured'', script, w)"
  by (subst callMonicaApi.simps) (auto simp: configured_def)

lemma callMonicaApi_admit_fails:
  assumes "configured ev"
    and "checkRateLimits ev (selected ev model) (log_event (Admit (selected ev model)) w) = (Some msg, w1)"
  shows "callMonicaApi ev fc p model script w = Some (Inl msg, script, w1)"
  using assms by (subst callMonicaApi.simps) (simp add: configured_def selected_def Let_def)

lemma callMonicaApi_starved:
  assumes "configured ev"
    and "checkRateLimits ev (selected ev model) (log_event (Admit (selected ev model)) w) = (None, w1)"
  shows "callMonicaApi ev fc p model [] w = None"
  using assms by (subst callMonicaApi.simps) (simp add: configured_def selected_def Let_def)

lemma callMonicaApi_retry:
  assumes "configured ev"
    and "checkRateLimits ev (selected ev model) (log_event (Admit (selected ev model)) w) = (None, w1)"
    and "is_429 x"
  shows "callMonicaApi ev fc p model (x # rest) w
           = callMonicaApi ev fc p model rest
               (after_429 x (network x (log_event (Post (selected ev model) (api_message p fc)) w1)))"
proof -
  obtain st msg retry where r: "reply x = HttpError st msg retry" and st: "st = 429"
    using assms(3) by (auto simp: is_429_def split: reply.splits)
  have k: "MONICA_API_KEY ev \<noteq> []" "MONICA_API_ENDPOINT ev \<noteq> []"
    using assms(1) by (simp_all add: configured_def)
  show ?thesis
    apply (subst callMonicaApi.simps)
    apply (simp only: Let_def k assms(2) [unfolded selected_def] selected_def api_message_def)
    apply (simp add: r st after_429_def)
    done
qed

lemma callMonicaApi_settled:
  assumes "configured ev"
    and "checkRateLimits ev (selected ev model) (log_event (Admit (selected ev model)) w) = (None, w1)"
    and "\<not> is_429 x"
  shows "callMonicaApi ev fc p model (x # rest) w
           = Some (reply_result (reply x), rest,
                   settle (selected ev model) (api_message p fc) x
                     (network x (log_event (Post (selected ev model) (api_message p fc)) w1)))"
proof -
  have k: "MONICA_API_KEY ev \<noteq> []" "MONICA_API_ENDPOINT ev \<noteq> []"
    using assms(1) by (simp_all add: configured_def)
  have unfold: "callMonicaApi ev fc p model (x # rest) w =
      (let w2 = network x (log_event (Post (selected ev model) (api_message p fc)) w1)
       in case reply x of
            Ok2xx usage content \<Rightarrow>
              (let w3 = trackRequest (selected ev model)
                          (usage_or (map_option fst usage) (rat_of_nat (length (api_message p fc)) / 4))
                          (usage_or (map_option snd usage) (rat_of_nat (length (api_message p fc)) / 4 / 2))
                          (log_event (Record (selected ev model)) w2)
               in case content of
                    Some text \<Rightarrow> Some (Inr text, rest, w3)
                  | None \<Rightarrow> Some (Inl ''Unexpected API response format'', rest, w3))
          | HttpError st msg retry \<Rightarrow>
              (if st = 400 \<and> msg \<noteq> [] \<and> includes_str msg ''maximum context length''
               then Some (Inl (''Token limit exceeded: '' @ msg), rest, w2)
               else if st = 429
               then callMonicaApi ev fc p model rest
                      (w2\<lparr>clock := clock w2 + int (case retry of None \<Rightarrow> 60 | Some n \<Rightarrow> n) * 1000\<rparr>)
               else Some (Inl (''API error: '' @ digits st @ '' - '' @ or_else msg ''Unknown error''), rest, w2))
          | NoResponse \<Rightarrow> Some (Inl ''No response received from API'', rest, w2))"
    apply (subst callMonicaApi.simps)
    apply (simp only: Let_def k assms(2) [unfolded selected_def] selected_def api_message_def)
    apply (simp only: simp_thms if_False prod.case option.case list.case)
    done
  show ?thesis
  proof (cases "reply x")
    case (Ok2xx usage content)
    then show ?thesis
      unfolding unfold by (cases content) (simp_all add: Let_def reply_result_def settle_def)
  next
    case (HttpError st msg retry)
    then have "st \<noteq> 429" using assms(3) by (simp add: is_429_def)
    then show ?thesis
      unfolding unfold using HttpError by (simp add: Let_def reply_result_def settle_def)
  next
    case NoResponse
    then show ?thesis
      unfolding unfold by (simp add: Let_def reply_result_def settle_def)
  qed
qed

lemma api_frame_refl [simp]: "api_frame w w"
  by (simp add: api_frame_def)

lemma api_frame_trans: "api_frame w w1 \<Longrightarrow> api_frame w1 w2 \<Longrightarrow> api_frame w w2"
  by (auto simp: api_frame_def)

lemma completions_log_event:
  "completions (log_event e w) = (if is_completion e then Suc (completions w) else completions w)"
  by (simp add: completions_def)

lemma api_frame_log_event: "\<not> is_completion e \<Longrightarrow> api_frame w (log_event e w)"
  by (simp add: api_frame_def completions_log_event)

lemma api_frame_network: "api_frame w (network x w)"
  by (simp add: api_frame_def completions_def network_def cancelProcessing_def Let_def)

lemma api_frame_after_429: "api_frame w (after_429 x w)"
  by (simp add: api_frame_def completions_def after_429_def split: reply.splits)

lemma api_frame_settle: "api_frame w (settle sel message x w)"
  by (simp add: api_frame_def completions_def settle_def is_completion_def split: reply.splits)

lemma checkRateLimits_frame:
  assumes "checkRateLimits ev k w = (a, w1)"
  shows "events w1 = events w \<and> processingProgress w1 = processingProgress w \<and> clock w \<le> clock w1"
proof (cases "getModelInfo (modelData ev) k")
  case None
  then show ?thesis
    using assms by (simp add: checkRateLimits_unregistered)
next
  case (Some m)
  from checkRateLimits_spec [OF Some, of w] assms show ?thesis
    by auto
qed

lemma api_frame_checkRateLimits:
  "checkRateLimits ev k w = (a, w1) \<Longrightarrow> api_frame w w1"
  by (drule checkRateLimits_frame) (simp add: api_frame_def completions_def)

lemma checkRateLimits_ok:
  assumes "admits ev k"
  shows "\<exists>w1. checkRateLimits ev k w = (None, w1)"
proof (cases "getModelInfo (modelData ev) k")
  case None
  then show ?thesis
    by (simp add: checkRateLimits_unregistered)
next
  case (Some m)
  then have "0 < rpm m"
    using assms by (simp add: admits_def)
  with checkRateLimits_spec [OF Some, of w] show ?thesis
    by (auto split: option.splits)
qed

lemma callMonicaApi_frame:
  "callMonicaApi ev fc p model script w = Some (r, s', w') \<Longrightarrow> api_frame w w'"
proof (induction script arbitrary: w)
  case Nil
  show ?case
  proof (cases "configured ev")
    case False
    with Nil show ?thesis by (simp add: callMonicaApi_unconfigured)
  next
    case True
    obtain a w1 where chk: "checkRateLimits ev (selected ev model) (log_event (Admit (selected ev model)) w) = (a, w1)"
      by fastforce
    have fr: "api_frame w w1"
      using api_frame_log_event [of "Admit (selected ev model)" w] api_frame_checkRateLimits [OF chk]
      by (auto simp: is_completion_def intro: api_frame_trans)
    show ?thesis
    proof (cases a)
      case None
      with Nil True chk show ?thesis by (simp add: callMonicaApi_starved)
    next
      case (Some msg)
      with Nil True chk fr show ?thesis by (simp add: callMonicaApi_admit_fails)
    qed
  qed
next
  case (Cons x rest)
  show ?case
  proof (cases "configured ev")
    case False
    with Cons.prems show ?thesis by (simp add: callMonicaApi_unconfigured)
  next
    case True
    obtain a w1 where chk: "checkRateLimits ev (selected ev model) (log_event (Admit (selected ev model)) w) = (a, w1)"
      by fastforce
    have fr: "api_frame w w1"
      using api_frame_log_event [of "Admit (selected ev model)" w] api_frame_checkRateLimits [OF chk]
      by (auto simp: is_completion_def intro: api_frame_trans)
    let ?w2 = "network x (log_event (Post (selected ev model) (api_message p fc)) w1)"
    have fr2: "api_frame w ?w2"
      using fr api_frame_log_event [of "Post (selected ev model) (api_message p fc)" w1]
        api_frame_network [of "log_event (Post (selected ev model) (api_message p fc)) w1" x]
      by (auto simp: is_completion_def intro: api_frame_trans)
    show ?thesis
    proof (cases a)
      case (Some msg)
      with Cons.prems True chk fr show ?thesis by (simp add: callMonicaApi_admit_fails)
    next
      case None
      show ?thesis
      proof (cases "is_429 x")
        case True
        have "callMonicaApi ev fc p model rest (after_429 x ?w2) = Some (r, s', w')"
          using Cons.prems callMonicaApi_retry [OF \<open>configured ev\<close> chk [unfolded None] True] by simp
        then have "api_frame (after_429 x ?w2) w'"
          by (rule Cons.IH)
        with fr2 api_frame_after_429 [of ?w2 x] show ?thesis
          by (blast intro: api_frame_trans)
      next
        case False
        have "w' = settle (selected ev model) (api_message p fc) x ?w2"
          using Cons.prems callMonicaApi_settled [OF \<open>configured ev\<close> chk [unfolded None] False] by simp
        with fr2 api_frame_settle [of ?w2] show ?thesis
          by (blast intro: api_frame_trans)
      qed
    qed
  qed
qed

lemma events_after_429 [simp]: "events (after_429 x w) = events w"
  by (simp add: after_429_def split: reply.splits)




lemma callMonicaApi_total:
  "0 < settled_count script \<Longrightarrow>
     \<exists>r s' w'. callMonicaApi ev fc p model script w = Some (r, s', w')
        \<and> settled_count script \<le> Suc (settled_count s')"
proof (induction script arbitrary: w)
  case Nil
  then show ?case by (simp add: settled_count_def)
next
  case (Cons x rest)
  show ?case
  proof (cases "configured ev")
    case False
    then show ?thesis by (simp add: callMonicaApi_unconfigured)
  next
    case True
    obtain a w1 where chk: "checkRateLimits ev (selected ev model) (log_event (Admit (selected ev model)) w) = (a, w1)"
      by fastforce
    show ?thesis
    proof (cases a)
      case (Some msg)
      with True chk show ?thesis by (simp add: callMonicaApi_admit_fails)
    next
      case None
      show ?thesis
      proof (cases "is_429 x")
        case True
        then have "0 < settled_count rest" and eq: "settled_count (x # rest) = settled_count rest"
          using Cons.prems by (simp_all add: settled_count_def)
        from Cons.IH [OF this(1)] show ?thesis
          unfolding callMonicaApi_retry [OF \<open>configured ev\<close> chk [unfolded None] True] eq
          by blast
      next
        case False
        then show ?thesis
          unfolding callMonicaApi_settled [OF \<open>configured ev\<close> chk [unfolded None] False]
          by (simp add: settled_count_def)
      qed
    qed
  qed
qed

subsection \<open>Chunk loop\<close>

lemma loop_frame_refl [simp]: "loop_frame w w"
  by (simp add: loop_frame_def)

lemma loop_frame_trans: "loop_frame w w1 \<Longrightarrow> loop_frame w1 w2 \<Longrightarrow> loop_frame w w2"
  by (auto simp: loop_frame_def)

lemma api_frame_loop_frame: "api_frame w w' \<Longrightarrow> loop_frame w w'"
  by (simp add: api_frame_def loop_frame_def)

lemma chunkIteration_admit_fails:
  assumes "checkRateLimits ev model (log_event (Admit model) w) = (Some msg, w1)"
  shows "chunkIteration ev prompt model n i chunk script w
           = Some (chunk_placeholder msg, script,
                   updateProgress (\<lambda>p. p\<lparr>processedChunks := i + 1\<rparr>) w1)"
  unfolding chunkIteration_def Let_def assms
  by (simp only: prod.case option.case)

lemma chunkIteration_call:
  assumes "checkRateLimits ev model (log_event (Admit model) w) = (None, w1)"
  shows "chunkIteration ev prompt model n i chunk script w
           = (case callMonicaApi ev chunk (chunk_prompt prompt i n) model script
                     (log_event (Completion chunk (chunk_prompt prompt i n) model) w1) of
                None \<Rightarrow> None
              | Some (Inr chunkResponse, script', w2) \<Rightarrow>
                  Some (chunkResponse, script',
                        updateProgress
                          (\<lambda>p. p\<lparr>processedChunks := i + 1,
                                  estimatedEndTime :=
                                    Some (estimate_end (startTime p) (clock w2) (i + 1) n)\<rparr>) w2)
              | Some (Inl msg, script', w2) \<Rightarrow>
                  Some (chunk_placeholder msg, script',
                        updateProgress (\<lambda>p. p\<lparr>processedChunks := i + 1\<rparr>) w2))"
  unfolding chunkIteration_def chunk_prompt_def estimate_end_def Let_def assms
  by (simp only: prod.case option.case)

lemma chunkIteration_frame:
  assumes "chunkIteration ev prompt model n i chunk script w = Some (r, s', w')"
  shows "loop_frame w w' \<and> processedChunks (processingProgress w') = i + 1
         \<and> completions w' \<le> Suc (completions w)
         \<and> (admits ev model \<longrightarrow> completions w' = Suc (completions w))"
proof -
  obtain a w1 where chk: "checkRateLimits ev model (log_event (Admit model) w) = (a, w1)"
    by fastforce
  have fr1: "api_frame w w1"
    using api_frame_log_event [of "Admit model" w] api_frame_checkRateLimits [OF chk]
    by (auto simp: is_completion_def intro: api_frame_trans)
  show ?thesis
  proof (cases a)
    case (Some msg)
    have "\<not> admits ev model"
      using checkRateLimits_ok [of ev model "log_event (Admit model) w"] chk Some by auto
    moreover have "w' = updateProgress (\<lambda>p. p\<lparr>processedChunks := i + 1\<rparr>) w1"
      using assms chunkIteration_admit_fails [OF chk [unfolded Some]] by simp
    ultimately show ?thesis
      using fr1 by (simp add: api_frame_def loop_frame_def completions_def)
  next
    case None
    let ?w1' = "log_event (Completion chunk (chunk_prompt prompt i n) model) w1"
    note eq = chunkIteration_call [OF chk [unfolded None], of prompt n i chunk script]
    from assms obtain res w2 where
      call: "callMonicaApi ev chunk (chunk_prompt prompt i n) model script ?w1' = Some (res, s', w2)"
      and w': "w' = updateProgress (\<lambda>p. p\<lparr>processedChunks := i + 1\<rparr>) w2
             \<or> w' = updateProgress (\<lambda>p. p\<lparr>processedChunks := i + 1,
                        estimatedEndTime := Some (estimate_end (startTime p) (clock w2) (i + 1) n)\<rparr>) w2"
      unfolding eq by (auto split: option.splits sum.splits)
    have fr2: "api_frame ?w1' w2"
      using call by (rule callMonicaApi_frame)
    have c1: "completions ?w1' = Suc (completions w)"
      using fr1 by (simp add: completions_log_event is_completion_def api_frame_def)
    have "loop_frame w ?w1'"
      using fr1 by (simp add: api_frame_def loop_frame_def)
    then have "loop_frame w w2"
      using fr2 by (blast intro: loop_frame_trans api_frame_loop_frame)
    moreover have "completions w2 = Suc (completions w)"
      using fr2 c1 by (simp add: api_frame_def)
    ultimately show ?thesis
      using w' by (auto simp: loop_frame_def completions_def)
  qed
qed

lemma chunkIteration_total:
  assumes "0 < settled_count script"
  shows "\<exists>r s' w'. chunkIteration ev prompt model n i chunk script w = Some (r, s', w')
           \<and> settled_count script \<le> Suc (settled_count s')"
proof -
  obtain a w1 where chk: "checkRateLimits ev model (log_event (Admit model) w) = (a, w1)"
    by fastforce
  show ?thesis
  proof (cases a)
    case (Some msg)
    show ?thesis
      unfolding chunkIteration_admit_fails [OF chk [unfolded Some]] by simp
  next
    case None
    from callMonicaApi_total [OF assms, of ev chunk "chunk_prompt prompt i n" model
        "log_event (Completion chunk (chunk_prompt prompt i n) model) w1"]
    show ?thesis
      unfolding chunkIteration_call [OF chk [unfolded None]]
      by (auto split: sum.splits)
  qed
qed

lemma processChunks_frame:
  "processChunks ev prompt model n i chunks responses script w = Some (rs, s', w') \<Longrightarrow>
     loop_frame w w'
     \<and> length rs = length responses + length chunks
     \<and> take (length responses) rs = responses
     \<and> completions w' \<le> completions w + length chunks
     \<and> (admits ev model \<longrightarrow> completions w' = completions w + length chunks)
     \<and> (chunks \<noteq> [] \<longrightarrow> processedChunks (processingProgress w') = i + length chunks)"
proof (induction chunks arbitrary: i responses script w)
  case Nil
  then show ?case by simp
next
  case (Cons chunk rest)
  from Cons.prems obtain r s1 w1 where
    it: "chunkIteration ev prompt model n i chunk script w = Some (r, s1, w1)"
    and run: "processChunks ev prompt model n (i + 1) rest (responses @ [r]) s1 w1 = Some (rs, s', w')"
    by (auto split: option.splits)
  note f1 = chunkIteration_frame [OF it]
  note f2 = Cons.IH [OF run]
  have "loop_frame w w'"
    using f1 f2 by (blast intro: loop_frame_trans)
  moreover have "take (length responses) rs = responses"
  proof -
    have "take (length responses) (take (length (responses @ [r])) rs) = take (length responses) (responses @ [r])"
      using f2 by simp
    then show ?thesis by (simp add: min_def)
  qed
  moreover have "processedChunks (processingProgress w') = i + length (chunk # rest)"
  proof (cases rest)
    case Nil
    with run f1 show ?thesis by simp
  next
    case (Cons c cs)
    with f2 show ?thesis by simp
  qed
  ultimately show ?case
    using f1 f2 by auto
qed

lemma processChunks_total:
  "length chunks \<le> settled_count script \<Longrightarrow>
     \<exists>rs s' w'. processChunks ev prompt model n i chunks responses script w = Some (rs, s', w')"
proof (induction chunks arbitrary: i responses script w)
  case Nil
  then show ?case by simp
next
  case (Cons chunk rest)
  then have "0 < settled_count script" by simp
  from chunkIteration_total [OF this, of ev prompt model n i chunk w] obtain r s1 w1 where
    it: "chunkIteration ev prompt model n i chunk script w = Some (r, s1, w1)"
    and cnt: "settled_count script \<le> Suc (settled_count s1)"
    by blast
  have "length rest \<le> settled_count s1"
    using Cons.prems cnt by simp
  from Cons.IH [OF this, of "i + 1" "responses @ [r]" w1] show ?case
    using it by simp
qed

subsection \<open>The orchestrator: cases and return of a run\<close>

lemma trackFileProcessing_frame:
  "clock (snd (trackFileProcessing f w)) = clock w"
  "events (snd (trackFileProcessing f w)) = events w"
  "rateLimits (snd (trackFileProcessing f w)) = rateLimits w"
  "processingHistory (processingProgress (snd (trackFileProcessing f w)))
     = processingHistory (processingProgress w)"
  "cancelled (processingProgress (snd (trackFileProcessing f w)))
     = cancelled (processingProgress w)"
  by (simp_all add: trackFileProcessing_def Let_def)

lemma started_sel:
  "clock (started f w) = clock w"
  "events (started f w) = events w"
  "rateLimits (started f w) = rateLimits w"
  "processingHistory (processingProgress (started f w)) = processingHistory (processingProgress w)"
  "cancelled (processingProgress (started f w)) = cancelled (processingProgress w)"
  "startTime (processingProgress (started f w)) = Some (clock w)"
  "status (processingProgress (started f w)) = Processing"
  by (simp_all add: started_def trackFileProcessing_frame)

lemma completions_started [simp]: "completions (started f w) = completions w"
  by (simp add: completions_def started_sel)

lemma processLargeFile_frame:
  assumes "processLargeFile chunking ev fc prompt model M script w = Some (r, s', w')"
  shows "(\<exists>rs. r = Inr (join chunk_separator rs) \<and> length rs = length (chunking fc (M * 4)))
         \<and> clock w \<le> clock w'
         \<and> processingHistory (processingProgress w') = processingHistory (processingProgress w)
         \<and> startTime (processingProgress w') = startTime (processingProgress w)
         \<and> (cancelled (processingProgress w) \<longrightarrow> cancelled (processingProgress w'))
         \<and> totalChunks (processingProgress w') = length (chunking fc (M * 4))
         \<and> completions w' \<le> completions w + length (chunking fc (M * 4))
         \<and> (admits ev model \<longrightarrow> completions w' = completions w + length (chunking fc (M * 4)))"
proof -
  let ?chunks = "chunking fc (M * 4)"
  let ?w1 = "updateProgress (\<lambda>p. p\<lparr>totalChunks := length ?chunks, processedChunks := 0\<rparr>) w"
  from assms obtain rs where
    run: "processChunks ev prompt model (length ?chunks) 0 ?chunks [] script ?w1 = Some (rs, s', w')"
    and r: "r = Inr (join chunk_separator rs)"
    by (auto simp: processLargeFile_def chunk_separator_def Let_def split: option.splits)
  from processChunks_frame [OF run] r show ?thesis
    by (auto simp: loop_frame_def completions_def)
qed

lemma processSingle_frame:
  assumes "processSingle ev fc prompt model script w = Some (r, s', w')"
  shows "clock w \<le> clock w'
         \<and> processingHistory (processingProgress w') = processingHistory (processingProgress w)
         \<and> startTime (processingProgress w') = startTime (processingProgress w)
         \<and> (cancelled (processingProgress w) \<longrightarrow> cancelled (processingProgress w'))
         \<and> totalChunks (processingProgress w') = 1
         \<and> completions w' = Suc (completions w)"
proof -
  let ?w1 = "log_event (Completion fc prompt model)
               (updateProgress (\<lambda>p. p\<lparr>totalChunks := 1, processedChunks := 0\<rparr>) w)"
  from assms obtain res w2 where
    call: "callMonicaApi ev fc prompt model script ?w1 = Some (res, s', w2)"
    and w': "w' = w2 \<or> w' = updateProgress (\<lambda>p. p\<lparr>processedChunks := 1\<rparr>) w2"
    by (auto simp: processSingle_def Let_def split: option.splits sum.splits)
  have c1: "completions ?w1 = Suc (completions w)"
    by (simp add: completions_def is_completion_def)
  from callMonicaApi_frame [OF call] c1 w' show ?thesis
    by (auto simp: api_frame_def completions_def)
qed

lemma processFile_unfold:
  "processFile chunking ev inputPath outputPath prompt model script w =
     (case readFile ev inputPath of
        Inl msg \<Rightarrow>
          Some (fst (processFile_catch inputPath model (clock w) msg (started inputPath w)), script,
                snd (processFile_catch inputPath model (clock w) msg (started inputPath w)))
      | Inr fc \<Rightarrow>
          (case (if rat_of_nat (length fc) / 4
                      > rat_of_nat (max_tokens (getModelTokenLimit (modelData ev) (selected ev model)))
                 then processLargeFile chunking ev fc prompt (selected ev model)
                        (max_tokens (getModelTokenLimit (modelData ev) (selected ev model)))
                        script (started inputPath w)
                 else processSingle ev fc prompt (selected ev model) script (started inputPath w)) of
             None \<Rightarrow> None
           | Some (Inl msg, s', w3) \<Rightarrow>
               Some (fst (processFile_catch inputPath model (clock w) msg w3), s',
                     snd (processFile_catch inputPath model (clock w) msg w3))
           | Some (Inr response, s', w3) \<Rightarrow>
               Some (fst (processFile_finish ev inputPath outputPath model (selected ev model)
                            (clock w) response w3), s',
                     snd (processFile_finish ev inputPath outputPath model (selected ev model)
                            (clock w) response w3))))"
  unfolding processFile_def started_def selected_def max_tokens_def Let_def case_prod_beta
  by (rule refl)

lemma processFile_catch_effect:
  "fst (processFile_catch inputPath model t0 msg w) = Inl (''Failed to process file: '' @ msg)"
  "status (processingProgress (snd (processFile_catch inputPath model t0 msg w))) = Error"
  "error (processingProgress (snd (processFile_catch inputPath model t0 msg w))) = Some msg"
  "processingHistory (processingProgress (snd (processFile_catch inputPath model t0 msg w)))
     = slice_last9 (processingHistory (processingProgress w))
       @ [\<lparr>h_file = basename inputPath, h_model = or_else model ''default'',
           h_duration = clock w - t0, h_timestamp = clock w, h_success = False,
           h_error = Some msg\<rparr>]"
  "totalChunks (processingProgress (snd (processFile_catch inputPath model t0 msg w)))
     = totalChunks (processingProgress w)"
  "cancelled (processingProgress (snd (processFile_catch inputPath model t0 msg w)))
     = cancelled (processingProgress w)"
  "events (snd (processFile_catch inputPath model t0 msg w)) = events w"
  by (simp_all add: processFile_catch_def Let_def)

lemma processFile_finish_effect:
  "writeFile ev outputPath response = Some msg \<Longrightarrow>
     processFile_finish ev inputPath outputPath model sel t0 response w
       = processFile_catch inputPath model t0 msg w"
  "writeFile ev outputPath response = None \<Longrightarrow>
     fst (processFile_finish ev inputPath outputPath model sel t0 response w) = Inr outputPath"
  "writeFile ev outputPath response = None \<Longrightarrow>
     status (processingProgress (snd (processFile_finish ev inputPath outputPath model sel t0 response w)))
       = Completed"
  "writeFile ev outputPath response = None \<Longrightarrow>
     error (processingProgress (snd (processFile_finish ev inputPath outputPath model sel t0 response w)))
       = None"
  "writeFile ev outputPath response = None \<Longrightarrow>
     processingHistory (processingProgress (snd (processFile_finish ev inputPath outputPath model sel t0 response w)))
       = slice_last9 (processingHistory (processingProgress w))
         @ [\<lparr>h_file = basename inputPath, h_model = sel,
             h_duration = clock w - t0, h_timestamp = clock w, h_success = True,
             h_error = None\<rparr>]"
  "writeFile ev outputPath response = None \<Longrightarrow>
     events (snd (processFile_finish ev inputPath outputPath model sel t0 response w))
       = events w @ [Write outputPath response]"
  "totalChunks (processingProgress (snd (processFile_finish ev inputPath outputPath model sel t0 response w)))
     = totalChunks (processingProgress w)"
  "cancelled (processingProgress (snd (processFile_finish ev inputPath outputPath model sel t0 response w)))
     = cancelled (processingProgress w)"
  "completions (snd (processFile_finish ev inputPath outputPath model sel t0 response w))
     = completions w"
  by (simp_all add: processFile_finish_def processFile_catch_def Let_def completions_def
        is_completion_def split: option.splits)

lemma processFile_cases:
  assumes "processFile chunking ev inputPath outputPath prompt model script w = Some (r, s', w')"
  obtains (read_error) msg where "readFile ev inputPath = Inl msg" "s' = script"
      "r = fst (processFile_catch inputPath model (clock w) msg (started inputPath w))"
      "w' = snd (processFile_catch inputPath model (clock w) msg (started inputPath w))"
  | (failed) fc msg w3 where "readFile ev inputPath = Inr fc"
      "process_content chunking ev fc prompt (selected ev model) script (started inputPath w)
         = Some (Inl msg, s', w3)"
      "r = fst (processFile_catch inputPath model (clock w) msg w3)"
      "w' = snd (processFile_catch inputPath model (clock w) msg w3)"
  | (produced) fc response w3 where "readFile ev inputPath = Inr fc"
      "process_content chunking ev fc prompt (selected ev model) script (started inputPath w)
         = Some (Inr response, s', w3)"
      "r = fst (processFile_finish ev inputPath outputPath model (selected ev model) (clock w) response w3)"
      "w' = snd (processFile_finish ev inputPath outputPath model (selected ev model) (clock w) response w3)"
proof (cases "readFile ev inputPath")
  case (Inl msg)
  with assms read_error show ?thesis
    unfolding processFile_unfold by simp
next
  case (Inr fc)
  from assms obtain res w3 where
    body: "process_content chunking ev fc prompt (selected ev model) script (started inputPath w)
             = Some (res, s', w3)"
    unfolding processFile_unfold Inr process_content_def
    by (auto split: option.splits sum.splits)
  show ?thesis
  proof (cases res)
    case (Inl msg)
    with assms body Inr failed show ?thesis
      unfolding processFile_unfold process_content_def by simp
  next
    case (Inr response)
    with assms body \<open>readFile ev inputPath = Inr fc\<close> produced show ?thesis
      unfolding processFile_unfold process_content_def by simp
  qed
qed

lemma process_content_frame:
  assumes "process_content chunking ev fc prompt sel script w = Some (r, s', w')"
  shows "clock w \<le> clock w'
         \<and> processingHistory (processingProgress w') = processingHistory (processingProgress w)
         \<and> startTime (processingProgress w') = startTime (processingProgress w)
         \<and> (cancelled (processingProgress w) \<longrightarrow> cancelled (processingProgress w'))"
  using assms processLargeFile_frame processSingle_frame
  unfolding process_content_def by (metis (no_types, lifting))

lemma processLargeFile_total:
  assumes "length (chunking fc (M * 4)) \<le> settled_count script"
  shows "\<exists>r s' w'. processLargeFile chunking ev fc prompt model M script w = Some (r, s', w')"
proof -
  let ?chunks = "chunking fc (M * 4)"
  from processChunks_total [OF assms, of ev prompt model "length ?chunks" 0 "[]"
      "updateProgress (\<lambda>p. p\<lparr>totalChunks := length ?chunks, processedChunks := 0\<rparr>) w"]
  show ?thesis
    by (auto simp: processLargeFile_def Let_def)
qed

lemma processSingle_total:
  assumes "0 < settled_count script"
  shows "\<exists>r s' w'. processSingle ev fc prompt model script w = Some (r, s', w')"
proof -
  from callMonicaApi_total [OF assms, of ev fc prompt model
      "log_event (Completion fc prompt model)
         (updateProgress (\<lambda>p. p\<lparr>totalChunks := 1, processedChunks := 0\<rparr>) w)"]
  show ?thesis
    by (auto simp: processSingle_def Let_def split: sum.splits)
qed

lemma processFile_total:
  assumes "calls_needed chunking ev inputPath model \<le> settled_count script"
  shows "\<exists>r s' w'. processFile chunking ev inputPath outputPath prompt model script w = Some (r, s', w')"
proof (cases "readFile ev inputPath")
  case (Inl msg)
  then show ?thesis
    unfolding processFile_unfold by simp
next
  case (Inr fc)
  let ?M = "max_tokens (getModelTokenLimit (modelData ev) (selected ev model))"
  have "\<exists>res s' w3. process_content chunking ev fc prompt (selected ev model) script
                      (started inputPath w) = Some (res, s', w3)"
  proof (cases "rat_of_nat (length fc) / 4 > rat_of_nat ?M")
    case True
    then have "length (chunking fc (?M * 4)) \<le> settled_count script"
      using assms Inr by (simp add: calls_needed_def Let_def)
    from processLargeFile_total [of chunking fc ?M script, OF this] True show ?thesis
      by (simp add: process_content_def)
  next
    case False
    then have "0 < settled_count script"
      using assms Inr by (simp add: calls_needed_def Let_def)
    from processSingle_total [OF this] False show ?thesis
      by (simp add: process_content_def)
  qed
  then obtain res s' w3 where
    "process_content chunking ev fc prompt (selected ev model) script (started inputPath w)
       = Some (res, s', w3)"
    by blast
  then show ?thesis
    unfolding processFile_unfold Inr process_content_def
    by (cases res) simp_all
qed

lemma max_tokens_div: "max_tokens T = (4 * T) div 5"
proof -
  have "rat_of_nat T * (8 / 10) = of_int (4 * int T) / of_int 5"
    by simp
  then have "\<lfloor>rat_of_nat T * (8 / 10)\<rfloor> = (4 * int T) div 5"
    by (simp only: floor_divide_of_int_eq)
  then have "max_tokens T = nat ((4 * int T) div 5)"
    by (simp add: max_tokens_def)
  also have "\<dots> = (4 * T) div 5"
    by (simp add: nat_div_distrib nat_mult_distrib)
  finally show ?thesis .
qed



subsection \<open>Chunk loop: cancellation, actions and outputs\<close>

declare digits.simps [simp del]


lemma cancelled_after_429 [simp]:
  "cancelled (processingProgress (after_429 x w)) = cancelled (processingProgress w)"
  by (simp add: after_429_def split: reply.splits)

lemma cancelled_settle [simp]:
  "cancelled (processingProgress (settle sel message x w)) = cancelled (processingProgress w)"
  by (simp add: settle_def split: reply.splits)






lemma clock_after_429:
  "clock w \<le> clock (after_429 x w)"
  by (simp add: after_429_def split: reply.splits)

lemma settle_sel [simp]:
  "clock (settle sel message x w) = clock w"
  "processingProgress (settle sel message x w) = processingProgress w"
  by (simp_all add: settle_def split: reply.splits)



subsection \<open>The requests recorded over time\<close>

lemma within_rpm_in_window: "within_rpm R ts \<Longrightarrow> within_rpm R (in_window c ts)"
proof -
  assume within: "within_rpm R ts"
  have "recorded_in_window t (in_window c ts) \<le> recorded_in_window t ts" for t
  proof -
    have "filter (\<lambda>x. t - 60000 < x \<and> x \<le> t) (filter (\<lambda>x. c - 60000 < x) ts)
            = filter (\<lambda>x. c - 60000 < x) (filter (\<lambda>x. t - 60000 < x \<and> x \<le> t) ts)"
      by (auto intro!: filter_cong)
    then show ?thesis
      by (simp add: recorded_in_window_def in_window_def del: filter_filter)
  qed
  with within show ?thesis
    unfolding within_rpm_def by (meson le_trans)
qed

lemma in_window_idem: "in_window c (in_window c ts) = in_window c ts"
  by (simp add: in_window_def)

lemma recorded_sel [simp]:
  "recorded (updateProgress f w) = recorded w"
  "recorded (log_event e w) = recorded w"
  "recorded (cancelProcessing w) = recorded w"
  "recorded (network x w) = recorded w"
  "recorded (pruned k w) = recorded w"
  "recorded (after_429 x w) = recorded w"
  by (simp_all add: updateProgress_def log_event_def cancelProcessing_def network_def pruned_def
        after_429_def Let_def split: reply.splits)

lemma rateLimits_after_429 [simp]: "rateLimits (after_429 x w) = rateLimits w"
  by (simp add: after_429_def split: reply.splits)

lemma in_window_later: "c \<le> c' \<Longrightarrow> in_window c' (in_window c ts) = in_window c' ts"
  by (auto simp: in_window_def intro!: filter_cong)

lemma in_window_later_eq:
  assumes "in_window c xs = in_window c ys" and "c \<le> c'"
  shows "in_window c' xs = in_window c' ys"
proof -
  have "in_window c' xs = in_window c' (in_window c xs)"
    using assms(2) by (simp add: in_window_later)
  also have "\<dots> = in_window c' (in_window c ys)"
    using assms(1) by simp
  also have "\<dots> = in_window c' ys"
    using assms(2) by (simp add: in_window_later)
  finally show ?thesis .
qed

lemma rate_history_ok_later:
  assumes ok: "rate_history_ok ev w"
    and same: "rateLimits w' = rateLimits w" "recorded w' = recorded w"
    and le: "clock w \<le> clock w'"
  shows "rate_history_ok ev w'"
  unfolding rate_history_ok_def
proof (intro allI impI)
  fix k m
  assume km: "getModelInfo (modelData ev) k = Some m \<and> 0 < rpm m"
  have h: "history k w' = history k w" and s: "window_of w' k = window_of w k"
    using same by (simp_all add: history_def window_of_def)
  from ok km have a: "within_rpm (rpm m) (history k w)"
    and b: "\<forall>x\<in>set (history k w). x \<le> clock w"
    and c: "in_window (clock w) (history k w) = in_window (clock w) (requests (window_of w k))"
    unfolding rate_history_ok_def by blast+
  show "within_rpm (rpm m) (history k w')
        \<and> (\<forall>x\<in>set (history k w'). x \<le> clock w')
        \<and> in_window (clock w') (history k w') = in_window (clock w') (requests (window_of w' k))"
    unfolding h s using a b le in_window_later_eq [OF c le] by auto
qed

lemma slot_free_same:
  "slot_free ev k w \<Longrightarrow> rateLimits w' = rateLimits w \<Longrightarrow> slot_free ev k w'"
  by (simp add: slot_free_def window_of_def)

lemma checkRateLimits_recorded:
  "recorded (snd (checkRateLimits ev k w)) = recorded w"
proof (cases "getModelInfo (modelData ev) k")
  case None
  then show ?thesis by (simp add: checkRateLimits_unregistered)
next
  case (Some m)
  show ?thesis
  proof (induction "length (in_window (clock w) (requests (window_of w k)))" arbitrary: w
         rule: less_induct)
    case less
    let ?ts = "in_window (clock w) (requests (window_of w k))"
    consider (free) "length ?ts < rpm m"
      | (overflow) "rpm m \<le> length ?ts" "?ts = []"
      | (wait) oldest rest where "rpm m \<le> length ?ts" "?ts = oldest # rest"
      by (cases ?ts; cases "length ?ts < rpm m") (auto simp: not_less)
    then show ?case
    proof cases
      case free
      then show ?thesis by (simp add: checkRateLimits_free [OF Some])
    next
      case overflow
      then show ?thesis by (simp add: checkRateLimits_overflow [OF Some])
    next
      case wait
      define w2 where "w2 = (pruned k w)\<lparr>clock := oldest + 60000\<rparr>"
      have ts2: "in_window (clock w2) (requests (window_of w2 k)) = filter (\<lambda>t. oldest < t) rest"
        using wait(2) by (simp add: w2_def in_window_def)
      have "length (in_window (clock w2) (requests (window_of w2 k))) < length ?ts"
        unfolding ts2 wait(2) by (simp add: le_imp_less_Suc)
      from less [OF this] have "recorded (snd (checkRateLimits ev k w2)) = recorded w"
        by (simp add: w2_def)
      then show ?thesis
        using checkRateLimits_wait [OF Some wait] by (simp add: w2_def)
    qed
  qed
qed

lemma rate_history_ok_checkRateLimits:
  assumes run: "checkRateLimits ev k w = (a, w1)" and ok: "rate_history_ok ev w"
  shows "rate_history_ok ev w1 \<and> (a = None \<longrightarrow> slot_free ev k w1)"
proof (cases "getModelInfo (modelData ev) k")
  case None
  with run ok show ?thesis
    by (simp add: checkRateLimits_unregistered slot_free_def)
next
  case (Some m)
  from checkRateLimits_spec [OF Some, of w] run have
    le: "clock w \<le> clock w1"
    and rl: "rateLimits w1 = (rateLimits w)(k \<mapsto> prune (clock w1) (window_of w k))"
    and res: "(case a of None \<Rightarrow> length (requests (window_of w1 k)) < rpm m
                        | Some msg \<Rightarrow> rpm m = 0 \<and> msg = ''Maximum call stack size exceeded'')"
    by auto
  have rc: "recorded w1 = recorded w"
    using checkRateLimits_recorded [of ev k w] run by simp
  have wk: "requests (window_of w1 k) = in_window (clock w1) (requests (window_of w k))"
    using rl by (simp add: window_of_def in_window_def)
  have wo: "window_of w1 k' = window_of w k'" if "k' \<noteq> k" for k'
    using rl that by (simp add: window_of_def)
  have "rate_history_ok ev w1"
    unfolding rate_history_ok_def
  proof (intro allI impI)
    fix k' m'
    assume km: "getModelInfo (modelData ev) k' = Some m' \<and> 0 < rpm m'"
    have h: "history k' w1 = history k' w"
      using rc by (simp add: history_def)
    from ok km have a: "within_rpm (rpm m') (history k' w)"
      and b: "\<forall>x\<in>set (history k' w). x \<le> clock w"
      and c: "in_window (clock w) (history k' w) = in_window (clock w) (requests (window_of w k'))"
      unfolding rate_history_ok_def by blast+
    have d: "in_window (clock w1) (history k' w) = in_window (clock w1) (requests (window_of w k'))"
      using c le by (rule in_window_later_eq)
    have "in_window (clock w1) (history k' w) = in_window (clock w1) (requests (window_of w1 k'))"
    proof (cases "k' = k")
      case True
      then show ?thesis
        using d by (simp add: wk in_window_later)
    next
      case False
      then show ?thesis
        using d by (simp add: wo)
    qed
    then show "within_rpm (rpm m') (history k' w1)
        \<and> (\<forall>x\<in>set (history k' w1). x \<le> clock w1)
        \<and> in_window (clock w1) (history k' w1) = in_window (clock w1) (requests (window_of w1 k'))"
      unfolding h using a b le by auto
  qed
  moreover have "a = None \<longrightarrow> slot_free ev k w1"
    using res Some by (auto simp: slot_free_def)
  ultimately show ?thesis by blast
qed

lemma history_trackRequest:
  "k \<noteq> [] \<Longrightarrow> history k' (trackRequest k a b w)
                 = (if k' = k then history k' w @ [clock w] else history k' w)"
  by (simp add: history_def trackRequest_def Let_def)

lemma window_of_trackRequest_other:
  "k' \<noteq> k \<Longrightarrow> window_of (trackRequest k a b w) k' = window_of w k'"
  by (simp add: trackRequest_def window_of_def Let_def)

lemma in_window_snoc_now: "in_window c (ts @ [c]) = in_window c ts @ [c]"
  by (simp add: in_window_def)

lemma rate_history_ok_trackRequest:
  assumes ok: "rate_history_ok ev w" and free: "slot_free ev k w"
  shows "rate_history_ok ev (trackRequest k a b w)"
proof (cases "k = []")
  case True
  with ok show ?thesis by (simp add: trackRequest_def)
next
  case False
  let ?w' = "trackRequest k a b w"
  show ?thesis
    unfolding rate_history_ok_def
  proof (intro allI impI)
    fix k' m'
    assume km: "getModelInfo (modelData ev) k' = Some m' \<and> 0 < rpm m'"
    from ok km have wi: "within_rpm (rpm m') (history k' w)"
      and pa: "\<forall>x\<in>set (history k' w). x \<le> clock w"
      and eq: "in_window (clock w) (history k' w) = in_window (clock w) (requests (window_of w k'))"
      unfolding rate_history_ok_def by blast+
    show "within_rpm (rpm m') (history k' ?w')
        \<and> (\<forall>x\<in>set (history k' ?w'). x \<le> clock ?w')
        \<and> in_window (clock ?w') (history k' ?w') = in_window (clock ?w') (requests (window_of ?w' k'))"
    proof (cases "k' = k")
      case True
      have "length (in_window (clock w) (requests (window_of w k))) \<le> length (requests (window_of w k))"
        by (simp add: in_window_def)
      moreover have "length (requests (window_of w k)) < rpm m'"
        using free km True by (auto simp: slot_free_def)
      ultimately have "length (in_window (clock w) (history k w)) < rpm m'"
        using eq True by simp
      with wi True have "within_rpm (rpm m') (history k w @ [clock w])"
        by (intro within_rpm_snoc [where now = "clock w"]) simp_all
      then show ?thesis
        using True False pa eq
        by (simp add: history_trackRequest requests_trackRequest in_window_snoc_now)
    next
      case diff: False
      then show ?thesis
        using False wi pa eq
        by (simp add: history_trackRequest window_of_trackRequest_other)
    qed
  qed
qed

lemma rate_history_ok_settle:
  assumes ok: "rate_history_ok ev w" and free: "slot_free ev sel w"
  shows "rate_history_ok ev (settle sel message x w)"
proof (cases "reply x")
  case (Ok2xx usage content)
  have "rate_history_ok ev (log_event (Record sel) w)"
    using ok by (rule rate_history_ok_later) simp_all
  moreover have "slot_free ev sel (log_event (Record sel) w)"
    using free by (rule slot_free_same) simp
  ultimately show ?thesis
    unfolding settle_def Ok2xx by (simp add: rate_history_ok_trackRequest)
next
  case (HttpError st msg retry)
  with ok show ?thesis by (simp add: settle_def)
next
  case NoResponse
  with ok show ?thesis by (simp add: settle_def)
qed

lemma rate_history_ok_callMonicaApi:
  "callMonicaApi ev fc p model script w = Some (r, s', w') \<Longrightarrow> rate_history_ok ev w \<Longrightarrow>
     rate_history_ok ev w'"
proof (induction script arbitrary: w)
  case Nil
  show ?case
  proof (cases "configured ev")
    case False
    with Nil show ?thesis by (simp add: callMonicaApi_unconfigured)
  next
    case True
    obtain a w1 where chk: "checkRateLimits ev (selected ev model) (log_event (Admit (selected ev model)) w) = (a, w1)"
      by fastforce
    have "rate_history_ok ev (log_event (Admit (selected ev model)) w)"
      using Nil.prems(2) by (rule rate_history_ok_later) simp_all
    from rate_history_ok_checkRateLimits [OF chk this] have ok1: "rate_history_ok ev w1" by blast
    show ?thesis
    proof (cases a)
      case None
      with Nil True chk show ?thesis by (simp add: callMonicaApi_starved)
    next
      case (Some msg)
      with Nil True chk ok1 show ?thesis by (simp add: callMonicaApi_admit_fails)
    qed
  qed
next
  case (Cons x rest)
  show ?case
  proof (cases "configured ev")
    case False
    with Cons.prems show ?thesis by (simp add: callMonicaApi_unconfigured)
  next
    case True
    let ?sel = "selected ev model" and ?msg = "api_message p fc"
    obtain a w1 where chk: "checkRateLimits ev ?sel (log_event (Admit ?sel) w) = (a, w1)"
      by fastforce
    have "rate_history_ok ev (log_event (Admit ?sel) w)"
      using Cons.prems(2) by (rule rate_history_ok_later) simp_all
    from rate_history_ok_checkRateLimits [OF chk this]
    have ok1: "rate_history_ok ev w1" and free1: "a = None \<longrightarrow> slot_free ev ?sel w1"
      by blast+
    let ?w2 = "network x (log_event (Post ?sel ?msg) w1)"
    have ok2: "rate_history_ok ev ?w2"
      using ok1 by (rule rate_history_ok_later) simp_all
    show ?thesis
    proof (cases a)
      case (Some msg)
      with Cons.prems True chk ok1 show ?thesis by (simp add: callMonicaApi_admit_fails)
    next
      case None
      have free2: "slot_free ev ?sel ?w2"
        using free1 None by (auto intro: slot_free_same)
      show ?thesis
      proof (cases "is_429 x")
        case True
        have run: "callMonicaApi ev fc p model rest (after_429 x ?w2) = Some (r, s', w')"
          using Cons.prems callMonicaApi_retry [OF \<open>configured ev\<close> chk [unfolded None] True] by simp
        have "rate_history_ok ev (after_429 x ?w2)"
          using ok2
        proof (rule rate_history_ok_later)
          show "clock ?w2 \<le> clock (after_429 x ?w2)" by (rule clock_after_429)
        qed simp_all
        with run show ?thesis
          by (rule Cons.IH)
      next
        case False
        have "w' = settle ?sel ?msg x ?w2"
          using Cons.prems callMonicaApi_settled [OF \<open>configured ev\<close> chk [unfolded None] False] by simp
        with ok2 free2 show ?thesis
          by (simp add: rate_history_ok_settle)
      qed
    qed
  qed
qed

lemma rate_history_ok_updateProgress [simp]:
  "rate_history_ok ev (updateProgress f w) = rate_history_ok ev w"
  by (simp add: rate_history_ok_def history_def)

lemma rate_history_ok_log_event [simp]:
  "rate_history_ok ev (log_event e w) = rate_history_ok ev w"
  by (simp add: rate_history_ok_def history_def)

lemma rate_history_ok_initial: "rate_history_ok ev (initial_world t)"
  by (simp add: rate_history_ok_def history_def initial_world_def window_of_def empty_window_def
        within_rpm_def recorded_in_window_def in_window_def)

lemma rate_history_ok_chunkIteration:
  assumes run: "chunkIteration ev prompt model n i chunk script w = Some (r, s', w')"
    and ok: "rate_history_ok ev w"
  shows "rate_history_ok ev w'"
proof -
  obtain a w1 where chk: "checkRateLimits ev model (log_event (Admit model) w) = (a, w1)"
    by fastforce
  have ok1: "rate_history_ok ev w1"
    using rate_history_ok_checkRateLimits [OF chk] ok by simp
  show ?thesis
  proof (cases a)
    case (Some msg)
    with run ok1 show ?thesis
      unfolding chunkIteration_admit_fails [OF chk [unfolded Some]] by auto
  next
    case None
    from run obtain res w2 where
      call: "callMonicaApi ev chunk (chunk_prompt prompt i n) model script
               (log_event (Completion chunk (chunk_prompt prompt i n) model) w1) = Some (res, s', w2)"
      and w': "rate_history_ok ev w' = rate_history_ok ev w2"
      unfolding chunkIteration_call [OF chk [unfolded None]]
      by (auto split: option.splits sum.splits)
    from rate_history_ok_callMonicaApi [OF call] ok1 w' show ?thesis
      by simp
  qed
qed

lemma rate_history_ok_processChunks:
  "processChunks ev prompt model n i chunks responses script w = Some (rs, s', w') \<Longrightarrow>
     rate_history_ok ev w \<Longrightarrow> rate_history_ok ev w'"
proof (induction chunks arbitrary: i responses script w)
  case Nil
  then show ?case by simp
next
  case (Cons chunk rest)
  from Cons.prems(1) obtain r s1 w1 where
    it: "chunkIteration ev prompt model n i chunk script w = Some (r, s1, w1)"
    and run: "processChunks ev prompt model n (i + 1) rest (responses @ [r]) s1 w1 = Some (rs, s', w')"
    by (auto split: option.splits)
  from rate_history_ok_chunkIteration [OF it Cons.prems(2)] show ?case
    by (rule Cons.IH [OF run])
qed

lemma rate_history_ok_process_content:
  assumes run: "process_content chunking ev fc prompt sel script w = Some (r, s', w')"
    and ok: "rate_history_ok ev w"
  shows "rate_history_ok ev w'"
proof (cases "rat_of_nat (length fc) / 4 > rat_of_nat (max_tokens (getModelTokenLimit (modelData ev) sel))")
  case True
  with run obtain rs where
    "processChunks ev prompt sel
       (length (chunking fc (max_tokens (getModelTokenLimit (modelData ev) sel) * 4))) 0
       (chunking fc (max_tokens (getModelTokenLimit (modelData ev) sel) * 4)) [] script
       (updateProgress (\<lambda>p. p\<lparr>totalChunks := length (chunking fc (max_tokens (getModelTokenLimit (modelData ev) sel) * 4)),
                              processedChunks := 0\<rparr>) w) = Some (rs, s', w')"
    by (auto simp: process_content_def processLargeFile_def Let_def split: option.splits)
  from rate_history_ok_processChunks [OF this] ok show ?thesis
    by simp
next
  case False
  with run obtain res w2 where
    call: "callMonicaApi ev fc prompt sel script
             (log_event (Completion fc prompt sel)
                (updateProgress (\<lambda>p. p\<lparr>totalChunks := 1, processedChunks := 0\<rparr>) w)) = Some (res, s', w2)"
    and w': "rate_history_ok ev w' = rate_history_ok ev w2"
    by (auto simp: process_content_def processSingle_def Let_def split: option.splits sum.splits)
  from rate_history_ok_callMonicaApi [OF call] ok w' show ?thesis
    by simp
qed

lemma rate_history_ok_started [simp]:
  "rate_history_ok ev (started f w) = rate_history_ok ev w"
  by (simp add: rate_history_ok_def history_def started_def trackFileProcessing_def window_of_def
        Let_def)

lemma rate_history_ok_catch [simp]:
  "rate_history_ok ev (snd (processFile_catch inputPath model t0 msg w)) = rate_history_ok ev w"
  by (simp add: processFile_catch_def Let_def)

lemma rate_history_ok_finish [simp]:
  "rate_history_ok ev (snd (processFile_finish ev' inputPath outputPath model sel t0 response w))
     = rate_history_ok ev w"
  by (simp add: processFile_finish_def processFile_catch_def Let_def split: option.splits)

lemma rate_history_ok_processFile:
  assumes run: "processFile chunking ev inputPath outputPath prompt model script w = Some (r, s', w')"
    and ok: "rate_history_ok ev w"
  shows "rate_history_ok ev w'"
  using run
proof (cases rule: processFile_cases)
  case (read_error msg)
  with ok show ?thesis by simp
next
  case (failed fc msg w3)
  from rate_history_ok_process_content [OF failed(2)] ok failed(4) show ?thesis
    by simp
next
  case (produced fc response w3)
  from rate_history_ok_process_content [OF produced(2)] ok produced(4) show ?thesis
    by simp
qed

section \<open>Progress tracker: cancellation\<close>

text \<open>
  Claim C9. \<open>cancelProcessing\<close> takes effect only when \<open>status\<close> is \<open>processing\<close>:
  it then sets \<open>cancelled\<close> to true, \<open>status\<close> to \<open>cancelled\<close> and \<open>error\<close> to the
  message \<open>Processing cancelled by user\<close> (and stamps \<open>lastUpdated\<close>, as every
  update does). For every other status the whole state is left as it was.
\<close>

theorem cancelProcessing_only_when_processing:
  "(status (processingProgress w) = Processing \<longrightarrow>
      cancelProcessing w =
        w\<lparr>processingProgress :=
            (processingProgress w)\<lparr>cancelled := True, status := Cancelled,
               error := Some ''Processing cancelled by user'', lastUpdated := clock w\<rparr>\<rparr>)
   \<and> (status (processingProgress w) \<noteq> Processing \<longrightarrow> cancelProcessing w = w)"
  by (simp add: cancelProcessing_def updateProgress_def)

theorem cancelProcessing_only_when_processing_witness:
  "status (processingProgress (processing_world 7)) = Processing
   \<and> cancelled (processingProgress (cancelProcessing (processing_world 7)))
   \<and> status (processingProgress (cancelProcessing (processing_world 7))) = Cancelled
   \<and> status (processingProgress (initial_world 7)) \<noteq> Processing
   \<and> cancelProcessing (initial_world 7) = initial_world 7"
  using cancelProcessing_only_when_processing [of "processing_world 7"]
        cancelProcessing_only_when_processing [of "initial_world 7"]
  by (simp add: processing_world_def initial_world_def initial_progress_def)

section \<open>Rate limiter: recording a request\<close>

text \<open>
  Claim C7, as stated, fails: \<open>trackRequest\<close> never consults the registry. With an
  empty registry the key \<open>x\<close> is unknown, and recording for it still creates a
  window and appends to both lists.
\<close>

theorem trackRequest_unknown_key_counterexample:
  "getModelInfo [] ''x'' = None
   \<and> trackRequest ''x'' 10 5 (initial_world 0) \<noteq> initial_world 0
   \<and> rateLimits (trackRequest ''x'' 10 5 (initial_world 0)) ''x''
       = Some \<lparr>requests = [0], tokens = [(0, 15)]\<rparr>"
proof -
  have r: "rateLimits (trackRequest ''x'' 10 5 (initial_world 0)) ''x''
       = Some \<lparr>requests = [0], tokens = [(0, 15)]\<rparr>"
    by (simp add: trackRequest_def initial_world_def window_of_def empty_window_def)
  have "rateLimits (initial_world 0) ''x'' = None"
    by (simp add: initial_world_def)
  with r have "trackRequest ''x'' 10 5 (initial_world 0) \<noteq> initial_world 0"
    by (metis option.distinct(1))
  with r show ?thesis by (simp add: getModelInfo_def)
qed

text \<open>
  Claim C7, amended. \<open>trackRequest\<close> is a no-op exactly for an empty (falsy) model
  key. For every other key, in the registry or not, it appends the current time to the
  request list of that key and the pair of the current time and
  \<open>inputTokens + outputTokens\<close> to its token list, and changes nothing else.
\<close>

theorem trackRequest_effect:
  "(modelKey = [] \<longrightarrow> trackRequest modelKey inputTokens outputTokens w = w)
   \<and> (modelKey \<noteq> [] \<longrightarrow>
        requests (window_of (trackRequest modelKey inputTokens outputTokens w) modelKey)
          = requests (window_of w modelKey) @ [clock w]
      \<and> tokens (window_of (trackRequest modelKey inputTokens outputTokens w) modelKey)
          = tokens (window_of w modelKey) @ [(clock w, inputTokens + outputTokens)]
      \<and> (\<forall>k. k \<noteq> modelKey \<longrightarrow>
            rateLimits (trackRequest modelKey inputTokens outputTokens w) k = rateLimits w k)
      \<and> processingProgress (trackRequest modelKey inputTokens outputTokens w) = processingProgress w
      \<and> clock (trackRequest modelKey inputTokens outputTokens w) = clock w
      \<and> events (trackRequest modelKey inputTokens outputTokens w) = events w
      \<and> recorded (trackRequest modelKey inputTokens outputTokens w)
          = recorded w @ [(modelKey, clock w)])"
  by (simp add: trackRequest_def window_of_def Let_def)

theorem trackRequest_effect_witness:
  "trackRequest [] 10 5 (initial_world 3) = initial_world 3
   \<and> ''m'' \<noteq> []
   \<and> requests (window_of (trackRequest ''m'' 10 5 (initial_world 3)) ''m'') = [3]
   \<and> tokens (window_of (trackRequest ''m'' 10 5 (initial_world 3)) ''m'') = [(3, 15)]
   \<and> rateLimits (trackRequest ''m'' 10 5 (initial_world 3)) ''x'' = None"
  using trackRequest_effect [of "[]" 10 5 "initial_world 3"]
        trackRequest_effect [of "''m''" 10 5 "initial_world 3"]
  by (simp add: initial_world_def window_of_def empty_window_def)

section \<open>Chunking\<close>

text \<open>
  Claim C2 (code defect). Splitting and concatenating the chunks should give back the
  content. The array \<open>chunks\<close> that \<open>processLargeFile\<close> builds is empty for every
  content, so the concatenation is empty. For a content of 40000 characters and a model
  of token limit 10000 (a budget of 8000 tokens, 32000 characters), \<open>processFile\<close>
  takes the chunked path, calls the service not once and writes the empty string.
\<close>

theorem source_chunks_lose_content:
  "concat (source_chunks (replicate 40000 (CHR ''a'')) 32000) = []
   \<and> map_option (\<lambda>(r, s, w). (r, events w))
        (processFile source_chunks (sample_env 10000 2 (replicate 40000 (CHR ''a'')))
           ''/in/a.txt'' ''/out/a.txt'' ''p'' ''m'' [] (initial_world 0))
       = Some (Inr ''/out/a.txt'', [Write ''/out/a.txt'' []])"
  by (simp add: processFile_def sample_env_def initial_world_def initial_progress_def
        processLargeFile_def source_chunks_def trackFileProcessing_def updateProgress_def
        basename_def or_else_def getModelTokenLimit_def getModelInfo_def
        processFile_finish_def log_event_def Let_def)

section \<open>Rate limiter: admission\<close>

text \<open>
  Claim C3. Take a model with a registry entry of \<open>rpm = R > 0\<close> whose recorded
  timestamps lie in the past and hold at most \<open>R\<close> requests in every trailing 60 second
  window. Then \<open>checkRateLimits\<close> returns without error. It returns at once when fewer
  than \<open>R\<close> timestamps are within the last minute; otherwise (the case of the call after
  \<open>R\<close> back-to-back requests) it waits \<open>oldest + 60000 - now\<close> and runs the check
  again, so that it returns at time \<open>oldest + 60000\<close>, when the oldest timestamp has left
  the window. On return fewer than \<open>R\<close> timestamps remain, and whenever the request is
  recorded afterwards (\<open>trackRequest\<close>, any time \<open>d\<close> later), the timestamps recorded
  so far, pruned or not, still hold at most \<open>R\<close> requests in every trailing window,
  and the assumptions hold again for the list that is kept. For the whole pipeline, with
  its single sequential caller: the times ever recorded for a registered key hold at most
  \<open>rpm\<close> requests in every trailing window (\<open>rate_history_ok\<close>) in the initial state
  and after every run of \<open>processFile\<close> that starts in such a state.
\<close>

theorem admit_waits_for_oldest_and_record_stays_within_rpm:
  assumes reg: "getModelInfo (modelData ev) k = Some m"
    and pos: "0 < rpm m"
    and past: "\<forall>x\<in>set (requests (window_of w k)). x \<le> clock w"
    and within: "within_rpm (rpm m) (requests (window_of w k))"
  shows "\<exists>w1. checkRateLimits ev k w = (None, w1)
           \<and> clock w1 = (if length (in_window (clock w) (requests (window_of w k))) < rpm m
                          then clock w
                          else hd (in_window (clock w) (requests (window_of w k))) + 60000)
           \<and> clock w \<le> clock w1
           \<and> requests (window_of w1 k) = in_window (clock w1) (requests (window_of w k))
           \<and> length (requests (window_of w1 k)) < rpm m
           \<and> (\<forall>d a b. 0 \<le> d \<longrightarrow>
                 requests (window_of (trackRequest k a b (w1\<lparr>clock := clock w1 + d\<rparr>)) k)
                   = in_window (clock w1) (requests (window_of w k)) @ [clock w1 + d]
               \<and> within_rpm (rpm m) (requests (window_of w k) @ [clock w1 + d])
               \<and> within_rpm (rpm m)
                     (requests (window_of (trackRequest k a b (w1\<lparr>clock := clock w1 + d\<rparr>)) k))
               \<and> (\<forall>x\<in>set (requests (window_of (trackRequest k a b (w1\<lparr>clock := clock w1 + d\<rparr>)) k)).
                     x \<le> clock (trackRequest k a b (w1\<lparr>clock := clock w1 + d\<rparr>))))
         \<and> rate_history_ok ev (initial_world t)
         \<and> (rate_history_ok ev w0
              \<and> processFile chunking ev inputPath outputPath prompt model script w0
                  = Some (r, s', w') \<longrightarrow>
            rate_history_ok ev w')"
proof -
  let ?ts = "requests (window_of w k)"
  from checkRateLimits_admits [OF reg pos past within] obtain c where
    le: "clock w \<le> c"
    and run: "checkRateLimits ev k w
                = (None, (pruned k w)\<lparr>clock := c, rateLimits := (rateLimits w)(k \<mapsto> prune c (window_of w k))\<rparr>)"
    and free: "length (in_window c ?ts) < rpm m"
    and c: "c = (if length (in_window (clock w) ?ts) < rpm m then clock w
                 else hd (in_window (clock w) ?ts) + 60000)"
    by blast
  define w1 where "w1 = (pruned k w)\<lparr>clock := c, rateLimits := (rateLimits w)(k \<mapsto> prune c (window_of w k))\<rparr>"
  have c1: "clock w1 = c" by (simp add: w1_def)
  have r1: "requests (window_of w1 k) = in_window c ?ts"
    by (simp add: w1_def window_of_def in_window_def)
  have k: "k \<noteq> []" using reg by (rule getModelInfo_nonempty)
  have rec: "requests (window_of (trackRequest k a b (w1\<lparr>clock := c + d\<rparr>)) k) = in_window c ?ts @ [c + d]"
    for a b d
    using requests_trackRequest [OF k, of a b "w1\<lparr>clock := c + d\<rparr>"] r1 by simp
  have win: "within_rpm (rpm m) (?ts @ [c + d])" if "0 \<le> d" for d
    using within free by (rule within_rpm_snoc) (use that in simp)
  have win': "within_rpm (rpm m) (in_window c ?ts @ [c + d])" if "0 \<le> d" for d
  proof (rule within_rpm_snoc)
    show "within_rpm (rpm m) (in_window c ?ts)"
      using within by (rule within_rpm_in_window)
    show "length (in_window c (in_window c ?ts)) < rpm m"
      using free by (simp only: in_window_idem)
    show "c \<le> c + d" using that by simp
  qed
  have past': "\<forall>x\<in>set (in_window c ?ts @ [c + d]). x \<le> c + d" if "0 \<le> d" for d
    using past le that by (auto simp: in_window_def)
  have admission: "\<exists>w1. checkRateLimits ev k w = (None, w1)
           \<and> clock w1 = (if length (in_window (clock w) (requests (window_of w k))) < rpm m
                          then clock w
                          else hd (in_window (clock w) (requests (window_of w k))) + 60000)
           \<and> clock w \<le> clock w1
           \<and> requests (window_of w1 k) = in_window (clock w1) (requests (window_of w k))
           \<and> length (requests (window_of w1 k)) < rpm m
           \<and> (\<forall>d a b. 0 \<le> d \<longrightarrow>
                 requests (window_of (trackRequest k a b (w1\<lparr>clock := clock w1 + d\<rparr>)) k)
                   = in_window (clock w1) (requests (window_of w k)) @ [clock w1 + d]
               \<and> within_rpm (rpm m) (requests (window_of w k) @ [clock w1 + d])
               \<and> within_rpm (rpm m)
                     (requests (window_of (trackRequest k a b (w1\<lparr>clock := clock w1 + d\<rparr>)) k))
               \<and> (\<forall>x\<in>set (requests (window_of (trackRequest k a b (w1\<lparr>clock := clock w1 + d\<rparr>)) k)).
                     x \<le> clock (trackRequest k a b (w1\<lparr>clock := clock w1 + d\<rparr>))))"
    using run c le free rec win win' past' unfolding w1_def [symmetric] by (simp add: c1 r1)
  have pipeline: "rate_history_ok ev w0
              \<and> processFile chunking ev inputPath outputPath prompt model script w0
                  = Some (r, s', w') \<longrightarrow>
            rate_history_ok ev w'"
    using rate_history_ok_processFile by blast
  from admission rate_history_ok_initial pipeline show ?thesis
    by blast
qed

theorem admit_waits_for_oldest_and_record_stays_within_rpm_witness:
  "requests (window_of after_two_requests ''m'') = [0, 0]
   \<and> clock after_two_requests = 0
   \<and> (\<exists>w1. checkRateLimits (sample_env 10000 2 []) ''m'' after_two_requests = (None, w1)
         \<and> clock w1 = 60000
         \<and> requests (window_of w1 ''m'') = []
         \<and> requests (window_of (trackRequest ''m'' 10 5 (w1\<lparr>clock := clock w1 + 5\<rparr>)) ''m'') = [60005]
         \<and> within_rpm 2 [0, 0, 60005])
   \<and> (\<exists>r s' w'. processFile source_chunks (sample_env 10000 2 []) ''/in/a.txt'' ''/out/a.txt''
                   ''p'' ''m'' [ok_exchange ''R''] (initial_world 0) = Some (r, s', w')
          \<and> within_rpm 2 (history ''m'' w'))"
proof -
  let ?E = "sample_env 10000 2 []"
  let ?m = "\<lparr>key = ''m'', tokenLimit = 10000, rpm = 2\<rparr>"
  have ts: "requests (window_of after_two_requests ''m'') = [0, 0]"
    and ck: "clock after_two_requests = 0"
    by (simp_all add: after_two_requests_def checkRateLimits.simps sample_env_def getModelInfo_def
          initial_world_def window_of_def empty_window_def prune_def trackRequest_def Let_def)
  have reg: "getModelInfo (modelData ?E) ''m'' = Some ?m"
    by (simp add: getModelInfo_def sample_env_def)
  have pos: "0 < rpm ?m" by simp
  have past: "\<forall>x\<in>set (requests (window_of after_two_requests ''m'')). x \<le> clock after_two_requests"
    by (simp add: ts ck)
  have within: "within_rpm (rpm ?m) (requests (window_of after_two_requests ''m''))"
    by (simp add: ts within_rpm_def recorded_in_window_def)
  have "calls_needed source_chunks ?E ''/in/a.txt'' ''m'' \<le> settled_count [ok_exchange ''R'']"
    by (simp add: calls_needed_def sample_env_def settled_count_def is_429_def ok_exchange_def)
  from processFile_total [OF this] obtain r s' w' where
    pf: "processFile source_chunks ?E ''/in/a.txt'' ''/out/a.txt'' ''p'' ''m'' [ok_exchange ''R'']
           (initial_world 0) = Some (r, s', w')"
    by blast
  note inst = admit_waits_for_oldest_and_record_stays_within_rpm
                [OF reg pos past within, unfolded ts ck,
                 of 0 "initial_world 0" source_chunks "''/in/a.txt''" "''/out/a.txt''" "''p''"
                    "''m''" "[ok_exchange ''R'']" r s' w']
  from inst obtain w1 where run: "checkRateLimits ?E ''m'' after_two_requests = (None, w1)"
    and c1: "clock w1 = (if length (in_window 0 [0, 0]) < rpm ?m then 0
                         else hd (in_window 0 [0, 0]) + 60000)"
    and r1: "requests (window_of w1 ''m'') = in_window (clock w1) [0, 0]"
    and rec: "\<forall>d a b. 0 \<le> d \<longrightarrow>
                 requests (window_of (trackRequest ''m'' a b (w1\<lparr>clock := clock w1 + d\<rparr>)) ''m'')
                   = in_window (clock w1) [0, 0] @ [clock w1 + d]
               \<and> within_rpm (rpm ?m) ([0, 0] @ [clock w1 + d])
               \<and> within_rpm (rpm ?m)
                     (requests (window_of (trackRequest ''m'' a b (w1\<lparr>clock := clock w1 + d\<rparr>)) ''m''))
               \<and> (\<forall>x\<in>set (requests (window_of (trackRequest ''m'' a b (w1\<lparr>clock := clock w1 + d\<rparr>)) ''m'')).
                     x \<le> clock (trackRequest ''m'' a b (w1\<lparr>clock := clock w1 + d\<rparr>)))"
    by blast
  have c1': "clock w1 = 60000"
    using c1 by (simp add: in_window_def)
  have r1': "requests (window_of w1 ''m'') = []"
    using r1 by (simp add: c1' in_window_def)
  have third: "requests (window_of (trackRequest ''m'' 10 5 (w1\<lparr>clock := clock w1 + 5\<rparr>)) ''m'') = [60005]
        \<and> within_rpm 2 [0, 0, 60005]"
    using rec [rule_format, of 5 10 5] by (simp add: c1' in_window_def)
  from inst pf have "rate_history_ok ?E w'"
    by blast
  then have "within_rpm 2 (history ''m'' w')"
    using reg unfolding rate_history_ok_def by fastforce
  with run c1' r1' third ts ck pf show ?thesis
    by blast
qed

section \<open>Orchestrator: terminal status and history\<close>

text \<open>
  Claim C6. A run of \<open>processFile\<close> that returns leaves exactly one new entry at the end
  of \<open>processingHistory\<close> (after the last nine of the entries it found), for the base
  name of the input. Either it returns the output path, \<open>status\<close> is \<open>completed\<close> and
  the entry has \<open>success = true\<close>; or it throws \<open>Failed to process file: msg\<close>,
  \<open>status\<close> is \<open>error\<close>, \<open>error\<close> is \<open>msg\<close> and the entry has \<open>success = false\<close>
  with that message. The run returns whenever the script holds, among its exchanges that
  are not 429 replies, one for each call it can make.
\<close>

theorem processFile_one_terminal_status_one_history_entry:
  "(processFile chunking ev inputPath outputPath prompt model script w = Some (r, s', w') \<longrightarrow>
      (\<exists>e. processingHistory (processingProgress w')
              = slice_last9 (processingHistory (processingProgress w)) @ [e]
          \<and> h_file e = basename inputPath
          \<and> (case r of
                Inr p \<Rightarrow> p = outputPath \<and> status (processingProgress w') = Completed
                           \<and> error (processingProgress w') = None
                           \<and> h_success e \<and> h_error e = None
              | Inl thrown \<Rightarrow>
                  (\<exists>msg. thrown = ''Failed to process file: '' @ msg
                     \<and> status (processingProgress w') = Error
                     \<and> error (processingProgress w') = Some msg
                     \<and> \<not> h_success e \<and> h_error e = Some msg))))
   \<and> (calls_needed chunking ev inputPath model \<le> settled_count script \<longrightarrow>
        (\<exists>r s' w'. processFile chunking ev inputPath outputPath prompt model script w
                      = Some (r, s', w')))"
proof (intro conjI impI)
  assume "processFile chunking ev inputPath outputPath prompt model script w = Some (r, s', w')"
  then show "\<exists>e. processingHistory (processingProgress w')
              = slice_last9 (processingHistory (processingProgress w)) @ [e]
          \<and> h_file e = basename inputPath
          \<and> (case r of
                Inr p \<Rightarrow> p = outputPath \<and> status (processingProgress w') = Completed
                           \<and> error (processingProgress w') = None
                           \<and> h_success e \<and> h_error e = None
              | Inl thrown \<Rightarrow>
                  (\<exists>msg. thrown = ''Failed to process file: '' @ msg
                     \<and> status (processingProgress w') = Error
                     \<and> error (processingProgress w') = Some msg
                     \<and> \<not> h_success e \<and> h_error e = Some msg))"
  proof (cases rule: processFile_cases)
    case (read_error msg)
    then show ?thesis
      by (simp add: processFile_catch_effect started_sel)
  next
    case (failed fc msg w3)
    from process_content_frame [OF failed(2)]
    have "processingHistory (processingProgress w3) = processingHistory (processingProgress w)"
      by (simp add: started_sel)
    with failed show ?thesis
      by (simp add: processFile_catch_effect)
  next
    case (produced fc response w3)
    from process_content_frame [OF produced(2)]
    have h: "processingHistory (processingProgress w3) = processingHistory (processingProgress w)"
      by (simp add: started_sel)
    show ?thesis
    proof (cases "writeFile ev outputPath response")
      case None
      with produced h show ?thesis
        by (simp add: processFile_finish_effect)
    next
      case (Some msg)
      with produced h show ?thesis
        by (simp add: processFile_finish_effect(1) processFile_catch_effect)
    qed
  qed
next
  assume "calls_needed chunking ev inputPath model \<le> settled_count script"
  then show "\<exists>r s' w'. processFile chunking ev inputPath outputPath prompt model script w
                      = Some (r, s', w')"
    by (rule processFile_total)
qed

theorem processFile_one_terminal_status_one_history_entry_witness:
  "calls_needed source_chunks (sample_env 10 2 ''abcdefgh'') ''/in/a.txt'' ''m''
     \<le> settled_count [ok_exchange ''R'']
   \<and> (\<exists>w'. processFile source_chunks (sample_env 10 2 ''abcdefgh'') ''/in/a.txt''
               ''/out/a.txt'' ''p'' ''m'' [ok_exchange ''R''] (initial_world 0)
               = Some (Inr ''/out/a.txt'', [], w')
          \<and> status (processingProgress w') = Completed
          \<and> error (processingProgress w') = None
          \<and> (\<exists>e. processingHistory (processingProgress w') = [e] \<and> h_file e = ''a.txt''
                 \<and> h_success e))"
proof -
  let ?run = "processFile source_chunks (sample_env 10 2 ''abcdefgh'') ''/in/a.txt''
                ''/out/a.txt'' ''p'' ''m'' [ok_exchange ''R''] (initial_world 0)"
  have need: "calls_needed source_chunks (sample_env 10 2 ''abcdefgh'') ''/in/a.txt'' ''m''
                \<le> settled_count [ok_exchange ''R'']"
    by (simp add: calls_needed_def sample_env_def max_tokens_div getModelTokenLimit_def
          getModelInfo_def selected_def or_else_def settled_count_def is_429_def ok_exchange_def)
  have base: "basename ''/in/a.txt'' = ''a.txt''"
    by (simp add: basename_def)
  have hist: "slice_last9 (processingHistory (processingProgress (initial_world 0))) = []"
    by (simp add: slice_last9_def initial_world_def initial_progress_def)
  have eval: "map_option (\<lambda>(r, s, w). (r, s)) ?run = Some (Inr ''/out/a.txt'', [])"
    by (simp add: processFile_def processSingle_def processFile_finish_def callMonicaApi.simps
          checkRateLimits.simps sample_env_def initial_world_def initial_progress_def
          ok_exchange_def getModelInfo_def getModelTokenLimit_def window_of_def empty_window_def
          prune_def trackRequest_def trackFileProcessing_def basename_def log_event_def
          network_def updateProgress_def or_else_def usage_or_def Let_def)
  obtain r s' w' where run: "?run = Some (r, s', w')"
    using processFile_one_terminal_status_one_history_entry
            [of source_chunks "sample_env 10 2 ''abcdefgh''" "''/in/a.txt''" "''/out/a.txt''"
               "''p''" "''m''" "[ok_exchange ''R'']" "initial_world 0"] need
    by blast
  with eval have r: "r = Inr ''/out/a.txt''" and s': "s' = []"
    by simp_all
  from processFile_one_terminal_status_one_history_entry
         [of source_chunks "sample_env 10 2 ''abcdefgh''" "''/in/a.txt''" "''/out/a.txt''"
            "''p''" "''m''" "[ok_exchange ''R'']" "initial_world 0" r s' w'] run
  have "status (processingProgress w') = Completed \<and> error (processingProgress w') = None
        \<and> (\<exists>e. processingHistory (processingProgress w') = [e] \<and> h_file e = ''a.txt''
               \<and> h_success e)"
    unfolding base hist r by auto
  with need run r s' show ?thesis
    by blast
qed

section \<open>Orchestrator: number of completion calls\<close>



section \<open>Orchestrator: cancellation during a chunked file\<close>




section \<open>Rate limiter calls per API attempt\<close>




section \<open>Orchestrator: progress after a chunk attempt\<close>




section \<open>Orchestrator: failures of single chunks\<close>



end
